theory Spec2Isabelle
  imports Main "HOL-Library.AList"
begin

section \<open>Python values, failures and the world\<close>

text \<open>
  The module \<^verbatim>\<open>cohorts/load.py\<close> defines one class, \<^verbatim>\<open>Cohort\<close>. Its methods read and
  write files, print, and raise. The embedding makes all of that explicit: a method takes
  the world (file system and an event trace) and returns a result together with the world
  it leaves behind. A raised exception is the left injection of the result; the world
  returned with it is the world at the moment of the raise.

  Exceptions are named after the Python 3 classes (there \<^verbatim>\<open>IOError\<close> is \<^verbatim>\<open>OSError\<close>).
\<close>

datatype py_error =
  AssertionError | IOError | KeyError | IndexError | TypeError | ValueError

type_synonym 'a result = "py_error + 'a"

text \<open>
  A table is its list of rows; a row maps column names to cells. A cell is a text, an
  integer or a missing value; \<open>Other\<close> stands for a value of any other kind (a float, a
  boolean), kept as the text it is written with.
\<close>

datatype cell = Str string | Num int | NaN | Other string

type_synonym row = "(string \<times> cell) list"

datatype 'v pyobj =
  PyNone
| VariantCollection "'v set"
| DataFrame "row list"

text \<open>
  What a file holds: bytes this program did not write (a variant file, say), a pickled
  object, or CSV text, kept as its header fields and its records of field texts.
\<close>

datatype 'v content =
  Bytes string
| Pickle "'v pyobj"
| Csv "string list" "string list list"

datatype event =
  PathExists string
| ReadFile string
| WriteFile string
| MakeDirs string
| RmTree string
| FormatFuncCall string string string
| Print string

text \<open>
  A place in the file system is the list of directory names that lead to it from the
  root. A path, as the program writes it, is a string; the file system resolves it
  against the working directory.
\<close>

type_synonym fpath = "string list"

record 'v world =
  files :: "(fpath \<times> 'v content) list"
  dirs :: "fpath list"
  cwd :: fpath
  trace :: "event list"

definition emit :: "event \<Rightarrow> 'v world \<Rightarrow> 'v world" where
  "emit e w = w\<lparr>trace := trace w @ [e]\<rparr>"

definition and_then ::
  "'a result \<times> 's \<Rightarrow> ('a \<Rightarrow> 's \<Rightarrow> 'b result \<times> 's) \<Rightarrow> 'b result \<times> 's" where
  "and_then m f = (case m of (Inl e, w) \<Rightarrow> (Inl e, w) | (Inr x, w) \<Rightarrow> f x w)"

definition index :: "'a list \<Rightarrow> nat \<Rightarrow> 'a result" where
  "index xs i = (if i < length xs then Inr (xs ! i) else Inl IndexError)"

section \<open>Paths and the file system\<close>

text \<open>
  The program handles paths as strings; \<^verbatim>\<open>os.path.join\<close> and \<^verbatim>\<open>os.path.splitext\<close> follow
  \<^verbatim>\<open>posixpath\<close>.
\<close>

definition startswith :: "string \<Rightarrow> string \<Rightarrow> bool" where
  "startswith s p = (take (length p) s = p)"

definition path_join :: "string \<Rightarrow> string \<Rightarrow> string" where
  "path_join a b =
     (if startswith b ''/'' then b
      else if a = [] \<or> last a = CHR ''/'' then a @ b
      else a @ ''/'' @ b)"

definition basename :: "string \<Rightarrow> string" where
  "basename p = rev (takeWhile (\<lambda>c. c \<noteq> CHR ''/'') (rev p))"

definition splitext_ext :: "string \<Rightarrow> string" where
  \<comment> \<open>\<^verbatim>\<open>path.splitext(p)[1]\<close>: from the last dot of the last component, leading dots skipped\<close>
  "splitext_ext p =
     (let b = dropWhile (\<lambda>c. c = CHR ''.'') (basename p)
      in if CHR ''.'' \<in> set b
         then CHR ''.'' # rev (takeWhile (\<lambda>c. c \<noteq> CHR ''.'') (rev b))
         else [])"

fun split_slash :: "string \<Rightarrow> string list" where
  "split_slash [] = [[]]"
| "split_slash (ch # rest) =
     (if ch = CHR ''/'' then [] # split_slash rest
      else (case split_slash rest of [] \<Rightarrow> [[ch]] | x # xs \<Rightarrow> (ch # x) # xs))"

text \<open>
  The file system walks a path one component at a time, as the kernel does (symbolic
  links and access rights are left out). Every step starts in a directory that exists: an
  empty component (a doubled or trailing slash) and \<^verbatim>\<open>.\<close> stay there, \<^verbatim>\<open>..\<close> goes up (the
  root is its own parent) and a name goes down. So \<^verbatim>\<open>a/../b\<close> leads to \<^verbatim>\<open>b\<close> only where
  \<^verbatim>\<open>a\<close> is a directory, and \<^verbatim>\<open>f/\<close> leads nowhere when \<^verbatim>\<open>f\<close> is a regular file.
\<close>

definition is_file :: "'v world \<Rightarrow> fpath \<Rightarrow> bool" where
  "is_file w q = (map_of (files w) q \<noteq> None)"

definition is_dir :: "'v world \<Rightarrow> fpath \<Rightarrow> bool" where
  "is_dir w q = (q = [] \<or> q \<in> set (dirs w))"

definition exists_at :: "'v world \<Rightarrow> fpath \<Rightarrow> bool" where
  "exists_at w q = (is_dir w q \<or> is_file w q)"

definition norm_step :: "fpath \<Rightarrow> string \<Rightarrow> fpath" where
  "norm_step stack part =
     (if part = [] \<or> part = ''.'' then stack
      else if part = ''..'' then butlast stack
      else stack @ [part])"

definition walk_step :: "'v world \<Rightarrow> fpath option \<Rightarrow> string \<Rightarrow> fpath option" where
  "walk_step w state part =
     (case state of
        None \<Rightarrow> None
      | Some stack \<Rightarrow> if is_dir w stack then Some (norm_step stack part) else None)"

definition walk :: "'v world \<Rightarrow> fpath \<Rightarrow> string list \<Rightarrow> fpath option" where
  "walk w start parts = foldl (walk_step w) (Some start) parts"

definition start_dir :: "'v world \<Rightarrow> string \<Rightarrow> fpath" where
  "start_dir w p = (if startswith p ''/'' then [] else cwd w)"

definition resolve :: "'v world \<Rightarrow> string \<Rightarrow> fpath option" where
  \<comment> \<open>where a path leads, if the walk gets to its end; the empty path leads nowhere\<close>
  "resolve w p = (if p = [] then None else walk w (start_dir w p) (split_slash p))"

definition inside :: "fpath \<Rightarrow> fpath \<Rightarrow> bool" where
  \<comment> \<open>place \<open>q\<close> lies in the subtree of directory \<open>d\<close> (or is \<open>d\<close>)\<close>
  "inside d q = (take (length d) q = d)"

definition path_exists :: "string \<Rightarrow> 'v world \<Rightarrow> bool \<times> 'v world" where
  "path_exists p w =
     ((case resolve w p of None \<Rightarrow> False | Some q \<Rightarrow> exists_at w q),
      emit (PathExists p) w)"

definition read_file :: "string \<Rightarrow> 'v world \<Rightarrow> 'v content result \<times> 'v world" where
  \<comment> \<open>opening a missing file, or a directory, for reading raises \<^verbatim>\<open>IOError\<close>\<close>
  "read_file p w =
     (case resolve w p of
        None \<Rightarrow> (Inl IOError, emit (ReadFile p) w)
      | Some q \<Rightarrow>
          (case map_of (files w) q of
             None \<Rightarrow> (Inl IOError, emit (ReadFile p) w)
           | Some content \<Rightarrow> (Inr content, emit (ReadFile p) w)))"

definition write_file :: "string \<Rightarrow> 'v content \<Rightarrow> 'v world \<Rightarrow> unit result \<times> 'v world" where
  \<comment> \<open>opening for writing raises \<^verbatim>\<open>IOError\<close> when the walk fails (the directory the file
      goes into is not there, a regular file is on the way) and on a directory; otherwise
      the file is made or overwritten\<close>
  "write_file p content w =
     (case resolve w p of
        None \<Rightarrow> (Inl IOError, emit (WriteFile p) w)
      | Some q \<Rightarrow>
          if is_dir w q then (Inl IOError, emit (WriteFile p) w)
          else (Inr (), emit (WriteFile p) (w\<lparr>files := AList.update q content (files w)\<rparr>)))"

definition rmtree :: "string \<Rightarrow> 'v world \<Rightarrow> unit result \<times> 'v world" where
  \<comment> \<open>\<^verbatim>\<open>shutil.rmtree\<close>: removes the directory and all below it; raises on anything else\<close>
  "rmtree p w =
     (case resolve w p of
        None \<Rightarrow> (Inl IOError, emit (RmTree p) w)
      | Some q \<Rightarrow>
          if is_dir w q
          then (Inr (), emit (RmTree p)
                  (w\<lparr>files := filter (\<lambda>(f, _). \<not> inside q f) (files w),
                     dirs := filter (\<lambda>d. \<not> inside q d) (dirs w)\<rparr>))
          else (Inl IOError, emit (RmTree p) w))"

text \<open>
  \<^verbatim>\<open>os.mkdir\<close> makes one directory, in a directory that exists. \<^verbatim>\<open>os.makedirs\<close> is the
  recursion of the standard library: when the head of the path does not exist it is made
  first (that it exists by then is no error), and a tail \<^verbatim>\<open>.\<close> ends the call there; then
  the directory itself is made, which fails when it exists. Both take the path by its
  components, empty ones dropped; \<open>makedirs_rev\<close> takes them last first.
\<close>

datatype made = Made | Existed | Failed

definition exists_parts :: "'v world \<Rightarrow> fpath \<Rightarrow> string list \<Rightarrow> bool" where
  "exists_parts w start parts =
     (case walk w start parts of None \<Rightarrow> False | Some q \<Rightarrow> exists_at w q)"

definition mkdir_parts :: "fpath \<Rightarrow> string list \<Rightarrow> 'v world \<Rightarrow> made \<times> 'v world" where
  "mkdir_parts start parts w =
     (case rev parts of
        [] \<Rightarrow> (Existed, w)
      | tail # rhead \<Rightarrow>
          (case walk w start (rev rhead) of
             None \<Rightarrow> (Failed, w)
           | Some d \<Rightarrow>
               if \<not> is_dir w d then (Failed, w)
               else if tail = ''.'' \<or> tail = ''..'' \<or> exists_at w (d @ [tail])
               then (Existed, w)
               else (Made, w\<lparr>dirs := (d @ [tail]) # dirs w\<rparr>)))"

fun makedirs_rev :: "fpath \<Rightarrow> string list \<Rightarrow> 'v world \<Rightarrow> made \<times> 'v world" where
  "makedirs_rev start [] w = mkdir_parts start [] w"
| "makedirs_rev start (tail # rhead) w =
     (if rhead \<noteq> [] \<and> \<not> exists_parts w start (rev rhead) then
        (case makedirs_rev start rhead w of
           (Failed, w1) \<Rightarrow> (Failed, w1)
         | (_, w1) \<Rightarrow>
             if tail = ''.'' then (Made, w1)
             else mkdir_parts start (rev (tail # rhead)) w1)
      else mkdir_parts start (rev (tail # rhead)) w)"

definition makedirs :: "string \<Rightarrow> 'v world \<Rightarrow> unit result \<times> 'v world" where
  "makedirs p w =
     (if p = [] then (Inl IOError, emit (MakeDirs p) w)
      else
        (case makedirs_rev (start_dir w p) (rev (filter (\<lambda>part. part \<noteq> []) (split_slash p))) w of
           (Made, w1) \<Rightarrow> (Inr (), emit (MakeDirs p) w1)
         | (_, w1) \<Rightarrow> (Inl IOError, emit (MakeDirs p) w1)))"

definition plain :: "string \<Rightarrow> bool" where
  \<comment> \<open>the name of one path component: not empty, no slash, neither \<^verbatim>\<open>.\<close> nor \<^verbatim>\<open>..\<close>\<close>
  "plain s = (s \<noteq> [] \<and> CHR ''/'' \<notin> set s \<and> s \<noteq> ''.'' \<and> s \<noteq> ''..'')"

definition tidy :: "'v world \<Rightarrow> bool" where
  \<comment> \<open>every directory lies in a directory\<close>
  "tidy w = list_all (\<lambda>d. is_dir w (butlast d)) (dirs w)"

section \<open>The two serialisation formats\<close>

text \<open>
  \<^verbatim>\<open>pickle\<close> gives back an object equal to the one dumped. The table format is lossy:
  \<^verbatim>\<open>to_csv(index=False)\<close> writes every cell as text and \<^verbatim>\<open>read_csv\<close> infers the type of
  each column from the texts. The model of that inference: a column whose texts all read
  as integers (of 64 bits) becomes integers; otherwise, when some field is surely text
  (it starts with a letter no number, boolean or missing-value marker starts with), the
  texts that are missing-value markers become \<open>NaN\<close> and all others stay text; any other
  column holds values of another kind. Quoting and field separation are taken to be
  lossless, and the header is taken as it is written. The columns of a table are those of
  its first row; a table without rows is taken to have no columns.
\<close>

definition digit_char :: "nat \<Rightarrow> char" where
  "digit_char d = char_of (48 + d)"

definition digit_val :: "char \<Rightarrow> nat" where
  "digit_val ch = of_char ch - 48"

definition is_digit :: "char \<Rightarrow> bool" where
  "is_digit ch = (48 \<le> (of_char ch :: nat) \<and> (of_char ch :: nat) \<le> 57)"

fun digits :: "nat \<Rightarrow> string" where
  "digits n = (if n < 10 then [digit_char n] else digits (n div 10) @ [digit_char (n mod 10)])"

declare digits.simps [simp del]

definition render_int :: "int \<Rightarrow> string" where
  "render_int i = (if i < 0 then CHR ''-'' # digits (nat (- i)) else digits (nat i))"

definition parse_nat :: "string \<Rightarrow> nat" where
  "parse_nat s = foldl (\<lambda>n ch. 10 * n + digit_val ch) 0 s"

definition all_digits :: "string \<Rightarrow> bool" where
  "all_digits s = (s \<noteq> [] \<and> list_all is_digit s)"

definition int_literal :: "string \<Rightarrow> int option" where
  "int_literal s =
     (case s of
        [] \<Rightarrow> None
      | ch # rest \<Rightarrow>
          if ch = CHR ''-'' then (if all_digits rest then Some (- int (parse_nat rest)) else None)
          else if ch = CHR ''+'' then (if all_digits rest then Some (int (parse_nat rest)) else None)
          else if all_digits s then Some (int (parse_nat s)) else None)"

definition in_int64 :: "int \<Rightarrow> bool" where
  "in_int64 i = (- (2 ^ 63) \<le> i \<and> i < 2 ^ 63)"

definition int_field :: "string \<Rightarrow> int option" where
  "int_field s =
     (case int_literal s of None \<Rightarrow> None
      | Some i \<Rightarrow> if in_int64 i then Some i else None)"

definition na_values :: "string list" where
  "na_values =
     [[], ''#N/A'', ''#N/A N/A'', ''#NA'', ''-1.#IND'', ''-1.#QNAN'', ''-NaN'', ''-nan'',
      ''1.#IND'', ''1.#QNAN'', ''<NA>'', ''N/A'', ''NA'', ''NULL'', ''NaN'', ''None'', ''n/a'',
      ''nan'', ''null'']"

definition surely_text :: "string \<Rightarrow> bool" where
  \<comment> \<open>starts with a letter other than f, i, n, t in either case\<close>
  "surely_text s =
     (case s of [] \<Rightarrow> False
      | ch # _ \<Rightarrow> ch \<in> set ''abcdeghjklmopqrsuvwxyzABCDEGHJKLMOPQRSUVWXYZ'')"

definition infer_column :: "string list \<Rightarrow> cell list" where
  "infer_column texts =
     (if texts \<noteq> [] \<and> list_all (\<lambda>f. int_field f \<noteq> None) texts
      then map (\<lambda>f. Num (the (int_field f))) texts
      else if list_ex surely_text texts
      then map (\<lambda>f. if f \<in> set na_values then NaN else Str f) texts
      else map (\<lambda>f. if f \<in> set na_values then NaN else Other f) texts)"

fun render_cell :: "cell \<Rightarrow> string" where
  "render_cell (Str s) = s"
| "render_cell (Num i) = render_int i"
| "render_cell NaN = []"
| "render_cell (Other s) = s"

definition to_csv :: "row list \<Rightarrow> 'v content" where
  \<comment> \<open>\<^verbatim>\<open>df.to_csv(path, index=False)\<close>: the column names, then one record per row\<close>
  "to_csv df =
     (let columns = (case df of [] \<Rightarrow> [] | r # _ \<Rightarrow> map fst r)
      in Csv columns
           (map (\<lambda>r. map (\<lambda>col. case map_of r col of None \<Rightarrow> [] | Some cl \<Rightarrow> render_cell cl)
                        columns) df))"

definition read_csv_fields :: "string list \<Rightarrow> string list list \<Rightarrow> row list result" where
  \<comment> \<open>\<^verbatim>\<open>pd.read_csv\<close> on CSV text: no columns is an error, a short record is padded\<close>
  "read_csv_fields header records =
     (if header = [] then Inl ValueError
      else
        let field = (\<lambda>r j. if j < length r then r ! j else []);
            columns = map (\<lambda>j. infer_column (map (\<lambda>r. field r j) records))
                        [0..<length header]
        in Inr (map (\<lambda>i. map (\<lambda>j. (header ! j, columns ! j ! i)) [0..<length header])
                  [0..<length records]))"

section \<open>The collaborators\<close>

text \<open>
  Parsing a variant file and predicting epitopes are libraries outside the repository, and
  so is what the two readers make of a file that holds something else than they expect.
  They are parameters of the model: any functions of these types, failing where they like.
\<close>

record mhc_model =
  alleles :: "string list"
  model_epitope_lengths :: "nat list"
  model_max_file_records :: "nat option"
  model_process_limit :: nat

record 'v libs =
  vcf_elements :: "'v content \<Rightarrow> 'v list result"
  pickle_load_foreign :: "'v content \<Rightarrow> 'v pyobj result"
  read_csv_foreign :: "'v content \<Rightarrow> row list result"
  predict_epitopes_from_variants :: "'v pyobj \<Rightarrow> mhc_model \<Rightarrow> int \<Rightarrow> row list result"
  epitopes_to_dataframe :: "row list \<Rightarrow> row list result"

definition pickle_load :: "'v libs \<Rightarrow> 'v content \<Rightarrow> 'v pyobj result" where
  "pickle_load L content =
     (case content of Pickle obj \<Rightarrow> Inr obj | _ \<Rightarrow> pickle_load_foreign L content)"

definition read_csv :: "'v libs \<Rightarrow> 'v content \<Rightarrow> row list result" where
  "read_csv L content =
     (case content of Csv header records \<Rightarrow> read_csv_fields header records
      | _ \<Rightarrow> read_csv_foreign L content)"

definition load_vcf_fast :: "'v libs \<Rightarrow> string \<Rightarrow> 'v world \<Rightarrow> 'v list result \<times> 'v world" where
  \<comment> \<open>\<^verbatim>\<open>varcode.load_vcf_fast(path).elements\<close>: \<^verbatim>\<open>IOError\<close> when the file is missing\<close>
  "load_vcf_fast L p w =
     and_then (read_file p w) (\<lambda>content w1. (vcf_elements L content, w1))"

section \<open>The cohort\<close>

type_synonym file_format_func = "string \<Rightarrow> string \<Rightarrow> string \<Rightarrow> string"

record Cohort =
  data_dir :: string
  cache_dir :: string
  sample_ids :: "string list"
  normal_bam_ids :: "string list"
  tumor_bam_ids :: "string list"
  hla_alleles :: "string list list option"
  cache_results :: bool
  snv_file_format_funcs :: "file_format_func list option"
  indel_file_format_funcs :: "file_format_func list option"

definition variant_type_to_format_funcs :: "Cohort \<Rightarrow> (string \<times> file_format_func list) list" where
  "variant_type_to_format_funcs c =
     (case snv_file_format_funcs c of None \<Rightarrow> [] | Some fs \<Rightarrow> [(''snv'', fs)])
     @ (case indel_file_format_funcs c of None \<Rightarrow> [] | Some fs \<Rightarrow> [(''indel'', fs)])"

definition getitem :: "('k \<times> 'a) list \<Rightarrow> 'k \<Rightarrow> 'a result" where
  \<comment> \<open>\<^verbatim>\<open>d[k]\<close> on a dictionary\<close>
  "getitem d k = (case map_of d k of None \<Rightarrow> Inl KeyError | Some x \<Rightarrow> Inr x)"

definition variant_cache_name :: string where
  "variant_cache_name = ''cached-variants''"

definition neoantigen_cache_name :: string where
  "neoantigen_cache_name = ''cached-neoantigens''"

subsection \<open>The cache store (lines 60 to 92, 187 to 196)\<close>

definition cache_file_path :: "Cohort \<Rightarrow> string \<Rightarrow> string \<Rightarrow> string \<Rightarrow> string" where
  "cache_file_path c cache_name sample_id file_name =
     path_join (path_join (path_join (cache_dir c) cache_name) sample_id) file_name"

definition load_from_cache ::
  "'v libs \<Rightarrow> Cohort \<Rightarrow> string \<Rightarrow> string \<Rightarrow> string \<Rightarrow> 'v world
   \<Rightarrow> 'v pyobj result \<times> 'v world" where
  "load_from_cache L c cache_name sample_id file_name w =
     (if \<not> cache_results c then (Inr PyNone, w)
      else
        let cache_dir' = path_join (cache_dir c) cache_name;
            sample_cache_dir = path_join cache_dir' sample_id;
            cache_file = path_join sample_cache_dir file_name
        in case path_exists cache_file w of (ex, w1) \<Rightarrow>
           if \<not> ex then (Inr PyNone, w1)
           else if splitext_ext cache_file = ''.csv''
           then and_then (read_file cache_file w1)
                  (\<lambda>content w2. (map_sum id DataFrame (read_csv L content), w2))
           else and_then (read_file cache_file w1)
                  (\<lambda>content w2. (pickle_load L content, w2)))"

definition save_to_cache ::
  "'v libs \<Rightarrow> Cohort \<Rightarrow> 'v pyobj \<Rightarrow> string \<Rightarrow> string \<Rightarrow> string \<Rightarrow> 'v world
   \<Rightarrow> unit result \<times> 'v world" where
  "save_to_cache L c obj cache_name sample_id file_name w =
     (if \<not> cache_results c then (Inr (), w)
      else
        let cache_dir' = path_join (cache_dir c) cache_name;
            sample_cache_dir = path_join cache_dir' sample_id;
            cache_file = path_join sample_cache_dir file_name
        in case path_exists sample_cache_dir w of (ex, w1) \<Rightarrow>
           and_then (if \<not> ex then makedirs sample_cache_dir w1 else (Inr (), w1))
             (\<lambda>_ w2.
                (case obj of
                   DataFrame df \<Rightarrow> write_file cache_file (to_csv df) w2
                 | _ \<Rightarrow> write_file cache_file (Pickle obj) w2)))"

definition serialised :: "'v pyobj \<Rightarrow> 'v content" where
  \<comment> \<open>what \<open>save_to_cache\<close> writes for an object (lines 88 to 92)\<close>
  "serialised obj = (case obj of DataFrame df \<Rightarrow> to_csv df | _ \<Rightarrow> Pickle obj)"

definition clear_cache :: "Cohort \<Rightarrow> string \<Rightarrow> 'v world \<Rightarrow> unit result \<times> 'v world" where
  "clear_cache c cache_name w =
     (let cache_path = path_join (cache_dir c) cache_name
      in case path_exists cache_path w of (ex, w1) \<Rightarrow>
         if ex then rmtree cache_path w1 else (Inr (), w1))"

definition clear_variant_cache :: "Cohort \<Rightarrow> 'v world \<Rightarrow> unit result \<times> 'v world" where
  "clear_variant_cache c w = clear_cache c variant_cache_name w"

definition clear_neoantigen_cache :: "Cohort \<Rightarrow> 'v world \<Rightarrow> unit result \<times> 'v world" where
  "clear_neoantigen_cache c w = clear_cache c neoantigen_cache_name w"

definition clear_caches :: "Cohort \<Rightarrow> 'v world \<Rightarrow> unit result \<times> 'v world" where
  "clear_caches c w = and_then (clear_variant_cache c w) (\<lambda>_ w1. clear_neoantigen_cache c w1)"

subsection \<open>The variant merge engine (lines 94 to 138)\<close>

definition str_of :: "string option \<Rightarrow> string" where
  \<comment> \<open>what \<^verbatim>\<open>%s\<close> prints for a merge type: \<^verbatim>\<open>None\<close> prints as the word\<close>
  "str_of m = (case m of None \<Rightarrow> ''None'' | Some s \<Rightarrow> s)"

fun load_combined_variants ::
  "'v libs \<Rightarrow> Cohort \<Rightarrow> file_format_func list \<Rightarrow> string \<Rightarrow> string \<Rightarrow> string
   \<Rightarrow> 'v set list \<Rightarrow> 'v world \<Rightarrow> 'v set list result \<times> 'v world" where
  "load_combined_variants L c [] sample_id normal_bam_id tumor_bam_id combined_variants w =
     (Inr combined_variants, w)"
| "load_combined_variants L c (file_format_func # rest) sample_id normal_bam_id tumor_bam_id
     combined_variants w =
     (let file_name = file_format_func sample_id normal_bam_id tumor_bam_id;
          w1 = emit (FormatFuncCall sample_id normal_bam_id tumor_bam_id) w
      in and_then (load_vcf_fast L (path_join (data_dir c) file_name) w1)
           (\<lambda>variants w2.
              load_combined_variants L c rest sample_id normal_bam_id tumor_bam_id
                (combined_variants @ [set variants]) w2))"

fun set_union :: "'v set list \<Rightarrow> 'v set result" where
  \<comment> \<open>\<^verbatim>\<open>set.union(*sets)\<close>: a \<^verbatim>\<open>TypeError\<close> without a first argument\<close>
  "set_union [] = Inl TypeError"
| "set_union (s # ss) = Inr (foldl (\<union>) s ss)"

fun set_intersection :: "'v set list \<Rightarrow> 'v set result" where
  "set_intersection [] = Inl TypeError"
| "set_intersection (s # ss) = Inr (foldl (\<inter>) s ss)"

text \<open>
  \<^verbatim>\<open>VariantCollection(elements)\<close> keeps the distinct elements, which it finds by building
  \<^verbatim>\<open>set(elements)\<close>. Lines 132 and 134 pass a set of variant records. Line 128 passes
  the list \<^verbatim>\<open>combined_variants\<close> itself, whose one element is a set: a set is not hashable,
  and the constructor raises \<^verbatim>\<open>TypeError\<close>.
\<close>

definition merge_variants :: "'v set list \<Rightarrow> string option \<Rightarrow> 'v pyobj result" where
  \<comment> \<open>lines 126 to 134\<close>
  "merge_variants combined_variants merge_type =
     (if length combined_variants = 1 then
        (if merge_type \<noteq> None then Inl AssertionError
         else Inl TypeError)
      else
        (if merge_type \<noteq> Some ''union'' \<and> merge_type \<noteq> Some ''intersection''
         then Inl AssertionError
         else if merge_type = Some ''union''
         then map_sum id VariantCollection (set_union combined_variants)
         else map_sum id VariantCollection (set_intersection combined_variants)))"

definition load_single_sample_variants ::
  "'v libs \<Rightarrow> Cohort \<Rightarrow> nat \<Rightarrow> file_format_func list \<Rightarrow> string \<Rightarrow> string option \<Rightarrow> 'v world
   \<Rightarrow> 'v pyobj result \<times> 'v world" where
  \<comment> \<open>\<^verbatim>\<open>Cohort._load_single_sample_variants\<close>\<close>
  "load_single_sample_variants L c sample_idx file_format_funcs variant_type merge_type w =
     and_then (index (sample_ids c) sample_idx, w) (\<lambda>sample_id w.
     and_then (index (normal_bam_ids c) sample_idx, w) (\<lambda>normal_bam_id w.
     and_then (index (tumor_bam_ids c) sample_idx, w) (\<lambda>tumor_bam_id w.
       let cached_file_name = variant_type @ ''-'' @ str_of merge_type @ ''-variants.pkl''
       in and_then (load_from_cache L c variant_cache_name sample_id cached_file_name w)
            (\<lambda>cached w1.
               if cached \<noteq> PyNone then (Inr cached, w1)
               else
                 and_then (load_combined_variants L c file_format_funcs
                             sample_id normal_bam_id tumor_bam_id [] w1)
                   (\<lambda>combined_variants w2.
                 and_then (merge_variants combined_variants merge_type, w2)
                   (\<lambda>merged_variants w3.
                 and_then (save_to_cache L c merged_variants variant_cache_name
                             sample_id cached_file_name w3)
                   (\<lambda>_ w4. (Inr merged_variants, w4))))))))"

fun load_variants_loop ::
  "'v libs \<Rightarrow> Cohort \<Rightarrow> string \<Rightarrow> string option \<Rightarrow> (nat \<times> string) list
   \<Rightarrow> (string \<times> 'v pyobj) list \<Rightarrow> 'v world
   \<Rightarrow> (string \<times> 'v pyobj) list result \<times> 'v world" where
  \<comment> \<open>lines 98 to 107: the loop, the dictionary so far as accumulator\<close>
  "load_variants_loop L c variant_type merge_type [] sample_variants w =
     (Inr sample_variants, w)"
| "load_variants_loop L c variant_type merge_type ((i, sample_id) # rest) sample_variants w =
     (case getitem (variant_type_to_format_funcs c) variant_type of
        Inl e \<Rightarrow> (Inl e, w)
      | Inr funcs \<Rightarrow>
          (case load_single_sample_variants L c i funcs variant_type merge_type w of
             (Inl e, w1) \<Rightarrow>
               if e = IOError
               then load_variants_loop L c variant_type merge_type rest sample_variants
                      (emit (Print (''Variants did not exist for '' @ sample_id)) w1)
               else (Inl e, w1)
           | (Inr variants, w1) \<Rightarrow>
               load_variants_loop L c variant_type merge_type rest
                 (AList.update sample_id variants sample_variants) w1))"

definition load_variants ::
  "'v libs \<Rightarrow> Cohort \<Rightarrow> string \<Rightarrow> string option \<Rightarrow> 'v world
   \<Rightarrow> (string \<times> 'v pyobj) list result \<times> 'v world" where
  "load_variants L c variant_type merge_type w =
     (if variant_type \<noteq> ''snv'' \<and> variant_type \<noteq> ''indel'' then (Inl AssertionError, w)
      else load_variants_loop L c variant_type merge_type
             (enumerate 0 (sample_ids c)) [] w)"

subsection \<open>Neoantigen derivation (lines 140 to 181)\<close>

record neoantigen_args =
  epitope_lengths :: "nat list"
  ic50_cutoff :: int
  process_limit :: nat
  max_file_records :: "nat option"

definition set_column :: "string \<Rightarrow> cell \<Rightarrow> row list \<Rightarrow> row list" where
  \<comment> \<open>\<^verbatim>\<open>df[col] = v\<close> with a scalar: every row gets the cell\<close>
  "set_column col v df = map (AList.update col v) df"

definition load_single_sample_neoantigens ::
  "'v libs \<Rightarrow> Cohort \<Rightarrow> nat \<Rightarrow> string \<Rightarrow> string option \<Rightarrow> neoantigen_args \<Rightarrow> 'v world
   \<Rightarrow> 'v pyobj result \<times> 'v world" where
  \<comment> \<open>\<^verbatim>\<open>Cohort._load_single_sample_neoantigens\<close>\<close>
  "load_single_sample_neoantigens L c sample_idx variant_type merge_type args w =
     and_then (index (sample_ids c) sample_idx, w) (\<lambda>sample_id w.
       let cached_file_name = variant_type @ ''-'' @ str_of merge_type @ ''-neoantigens.csv''
       in and_then (load_from_cache L c neoantigen_cache_name sample_id cached_file_name w)
            (\<lambda>cached w1.
               if cached \<noteq> PyNone then (Inr cached, w1)
               else
                 and_then (getitem (variant_type_to_format_funcs c) variant_type, w1)
                   (\<lambda>funcs w1.
                 and_then (load_single_sample_variants L c sample_idx funcs
                             variant_type merge_type w1)
                   (\<lambda>variants w2.
                 and_then (case hla_alleles c of
                             None \<Rightarrow> (Inl TypeError, w2)
                           | Some hs \<Rightarrow> (index hs sample_idx, w2))
                   (\<lambda>hla w2.
                 let mhc = \<lparr>alleles = hla,
                            model_epitope_lengths = epitope_lengths args,
                            model_max_file_records = max_file_records args,
                            model_process_limit = process_limit args\<rparr>
                 in and_then (predict_epitopes_from_variants L variants mhc (ic50_cutoff args), w2)
                   (\<lambda>epitopes w2.
                 and_then (epitopes_to_dataframe L epitopes, w2)
                   (\<lambda>df w2.
                 let df_epitopes = DataFrame (set_column ''sample_id'' (Str sample_id) df)
                 in and_then (save_to_cache L c df_epitopes neoantigen_cache_name
                                sample_id cached_file_name w2)
                   (\<lambda>_ w3. (Inr df_epitopes, w3)))))))))"

fun load_neoantigens_loop ::
  "'v libs \<Rightarrow> Cohort \<Rightarrow> string \<Rightarrow> string option \<Rightarrow> neoantigen_args \<Rightarrow> (nat \<times> string) list
   \<Rightarrow> 'v pyobj list \<Rightarrow> 'v world \<Rightarrow> 'v pyobj list result \<times> 'v world" where
  \<comment> \<open>lines 145 to 150: no handler around the call\<close>
  "load_neoantigens_loop L c variant_type merge_type args [] dfs w = (Inr dfs, w)"
| "load_neoantigens_loop L c variant_type merge_type args ((i, sample_id) # rest) dfs w =
     and_then (load_single_sample_neoantigens L c i variant_type merge_type args w)
       (\<lambda>df_epitopes w1.
          load_neoantigens_loop L c variant_type merge_type args rest (dfs @ [df_epitopes]) w1)"

fun frame_rows :: "'v pyobj \<Rightarrow> row list option" where
  "frame_rows (DataFrame df) = Some df"
| "frame_rows _ = None"

definition pd_concat :: "'v pyobj list \<Rightarrow> 'v pyobj result" where
  \<comment> \<open>\<^verbatim>\<open>pd.concat\<close>: \<^verbatim>\<open>ValueError\<close> on no objects, \<^verbatim>\<open>TypeError\<close> on one that is no table\<close>
  "pd_concat dfs =
     (if dfs = [] then Inl ValueError
      else if list_ex (\<lambda>d. frame_rows d = None) dfs then Inl TypeError
      else Inr (DataFrame (concat (map (\<lambda>d. the (frame_rows d)) dfs))))"

definition load_neoantigens ::
  "'v libs \<Rightarrow> Cohort \<Rightarrow> string \<Rightarrow> string option \<Rightarrow> neoantigen_args \<Rightarrow> 'v world
   \<Rightarrow> 'v pyobj result \<times> 'v world" where
  "load_neoantigens L c variant_type merge_type args w =
     (if hla_alleles c = None then (Inl AssertionError, w)
      else and_then (load_neoantigens_loop L c variant_type merge_type args
                       (enumerate 0 (sample_ids c)) [] w)
             (\<lambda>dfs w1. (pd_concat dfs, w1)))"

section \<open>Tables that survive the table format\<close>

definition int_cell :: "cell \<Rightarrow> bool" where
  "int_cell cl = (case cl of Num i \<Rightarrow> in_int64 i | _ \<Rightarrow> False)"

definition text_cell :: "cell \<Rightarrow> bool" where
  "text_cell cl = (case cl of Str s \<Rightarrow> surely_text s | _ \<Rightarrow> False)"

definition csv_stable :: "row list \<Rightarrow> bool" where
  \<comment> \<open>at least one row and one column, every row with the same distinct named columns, and every
      column all integers of 64 bits or all texts that are surely text\<close>
  "csv_stable df =
     (case df of
        [] \<Rightarrow> False
      | r # _ \<Rightarrow>
          r \<noteq> [] \<and> distinct (map fst r) \<and> list_all (\<lambda>(name, _). name \<noteq> []) r
          \<and> list_all (\<lambda>r'. map fst r' = map fst r) df
          \<and> list_all (\<lambda>j. list_all (\<lambda>r'. int_cell (snd (r' ! j))) df
                         \<or> list_all (\<lambda>r'. text_cell (snd (r' ! j))) df)
               [0..<length r])"

section \<open>A small cohort to run the model on\<close>

text \<open>
  Three samples and two callers. A variant file is read as one record per character.
  Sample \<open>s2\<close> has no variant files.
\<close>

definition example_libs :: "string libs" where
  "example_libs =
     \<lparr>vcf_elements =
        (\<lambda>content. case content of Bytes s \<Rightarrow> Inr (map (\<lambda>ch. [ch]) s) | _ \<Rightarrow> Inl ValueError),
      pickle_load_foreign = (\<lambda>_. Inl ValueError),
      read_csv_foreign = (\<lambda>_. Inl ValueError),
      predict_epitopes_from_variants = (\<lambda>_ _ _. Inr [[(''peptide'', Str ''SIINFEKL'')]]),
      epitopes_to_dataframe = (\<lambda>rows. Inr rows)\<rparr>"

definition mutect :: file_format_func where
  "mutect sample_id normal_bam_id tumor_bam_id = sample_id @ ''-mutect.vcf''"

definition strelka :: file_format_func where
  "strelka sample_id normal_bam_id tumor_bam_id = sample_id @ ''-strelka.vcf''"

definition example_cohort :: Cohort where
  "example_cohort =
     \<lparr>data_dir = ''data'', cache_dir = ''cache'',
      sample_ids = [''s1'', ''s2'', ''s3''],
      normal_bam_ids = [''n1'', ''n2'', ''n3''],
      tumor_bam_ids = [''t1'', ''t2'', ''t3''],
      hla_alleles = Some [[''A0201''], [''A0201''], [''B0702'']],
      cache_results = True,
      snv_file_format_funcs = Some [mutect, strelka],
      indel_file_format_funcs = Some [mutect]\<rparr>"

definition example_world :: "string world" where
  "example_world =
     \<lparr>files = [([''work'', ''data'', ''s1-mutect.vcf''], Bytes ''ABC''),
               ([''work'', ''data'', ''s1-strelka.vcf''], Bytes ''BCD''),
               ([''work'', ''data'', ''s3-mutect.vcf''], Bytes ''AB''),
               ([''work'', ''data'', ''s3-strelka.vcf''], Bytes ''B'')],
      dirs = [[''work''], [''work'', ''data'']],
      cwd = [''work''],
      trace = []\<rparr>"

definition example_fresh_world :: "string world" where
  \<comment> \<open>the same data, and a cache directory with nothing in it\<close>
  "example_fresh_world = example_world\<lparr>dirs := [''work'', ''cache''] # dirs example_world\<rparr>"

definition example_table :: "row list" where
  "example_table = [[(''peptide'', Str ''SIINFEKL''), (''sample_id'', Str ''s1'')]]"

definition example_cached_world :: "string world" where
  \<comment> \<open>the same data, with one cached entry of each category for sample \<open>s1\<close>\<close>
  "example_cached_world =
     \<lparr>files = [([''work'', ''data'', ''s1-mutect.vcf''], Bytes ''ABC''),
               ([''work'', ''data'', ''s1-strelka.vcf''], Bytes ''BCD''),
               ([''work'', ''cache'', ''cached-variants'', ''s1'', ''snv-union-variants.pkl''],
                Pickle (VariantCollection {''Q''})),
               ([''work'', ''cache'', ''cached-neoantigens'', ''s1'',
                 ''snv-union-neoantigens.csv''],
                to_csv example_table)],
      dirs = [[''work''], [''work'', ''data''], [''work'', ''cache''],
              [''work'', ''cache'', ''cached-variants''],
              [''work'', ''cache'', ''cached-variants'', ''s1''],
              [''work'', ''cache'', ''cached-neoantigens''],
              [''work'', ''cache'', ''cached-neoantigens'', ''s1'']],
      cwd = [''work''],
      trace = []\<rparr>"

definition example_args :: neoantigen_args where
  "example_args =
     \<lparr>epitope_lengths = [8, 9, 10, 11], ic50_cutoff = 500,
      process_limit = 10, max_file_records = None\<rparr>"


section \<open>Basic facts\<close>

lemma index_in_range: "i < length xs \<Longrightarrow> index xs i = Inr (xs ! i)"
  by (simp add: index_def)

lemma and_then_Inl [simp]: "and_then (Inl e, w) f = (Inl e, w)"
  by (simp add: and_then_def)

lemma and_then_Inr [simp]: "and_then (Inr x, w) f = f x w"
  by (simp add: and_then_def)

lemma and_then_cases:
  "and_then m f = (r, w') \<longleftrightarrow>
     (\<exists>e. m = (Inl e, w') \<and> r = Inl e) \<or> (\<exists>x w1. m = (Inr x, w1) \<and> f x w1 = (r, w'))"
  by (cases m; cases "fst m") (auto simp: and_then_def)

lemma getitem_unknown_variant_type:
  "variant_type \<noteq> ''snv'' \<Longrightarrow> variant_type \<noteq> ''indel'' \<Longrightarrow>
   getitem (variant_type_to_format_funcs c) variant_type = Inl KeyError"
  by (simp add: getitem_def variant_type_to_format_funcs_def split: option.splits)

lemma load_variants_unknown_variant_type:
  "variant_type \<noteq> ''snv'' \<Longrightarrow> variant_type \<noteq> ''indel'' \<Longrightarrow>
   load_variants L c variant_type merge_type w = (Inl AssertionError, w)"
  by (simp add: load_variants_def)


section \<open>Paths\<close>

lemma startswith_iff: "startswith s p \<longleftrightarrow> (\<exists>r. s = p @ r)"
  unfolding startswith_def
  by (metis append_eq_conv_conj append_take_drop_id)

lemma startswith_append [simp]: "startswith (p @ r) p"
  by (simp add: startswith_def)

lemma startswith_Nil [simp]: "\<not> startswith [] ''/''"
  by (simp add: startswith_def)

lemma path_join_absolute: "startswith b ''/'' \<Longrightarrow> path_join a b = b"
  by (simp add: path_join_def)

lemma plain_relative: "plain b \<Longrightarrow> \<not> startswith b ''/''"
  by (cases b) (auto simp: plain_def startswith_def)

lemma path_join_plain:
  "plain b \<Longrightarrow>
   path_join a b = (if a = [] \<or> last a = CHR ''/'' then a @ b else a @ ''/'' @ b)"
  by (simp add: path_join_def plain_relative)

lemma path_join_nonempty: "b \<noteq> [] \<Longrightarrow> path_join a b \<noteq> []"
  by (auto simp: path_join_def)

lemma startswith_path_join:
  "a \<noteq> [] \<Longrightarrow> plain b \<Longrightarrow> startswith (path_join a b) ''/'' = startswith a ''/''"
  by (cases a) (auto simp: path_join_plain startswith_def)

lemma split_slash_nonempty [simp]: "split_slash s \<noteq> []"
  by (induction s) (auto split: list.splits)

lemma split_slash_plain: "CHR ''/'' \<notin> set s \<Longrightarrow> split_slash s = [s]"
  by (induction s) auto

lemma split_slash_at_slash:
  "split_slash (a @ CHR ''/'' # b) = split_slash a @ split_slash b"
proof (induction a)
  case Nil
  show ?case by simp
next
  case (Cons ch a)
  then show ?case
    by (cases "split_slash a") auto
qed

lemma split_slash_trailing: "split_slash (a @ ''/'') = split_slash a @ [[]]"
  using split_slash_at_slash [of a "[]"] by simp

lemma split_slash_path_join:
  assumes "a \<noteq> []" "plain b"
  shows "\<exists>xs. (split_slash a = xs \<or> split_slash a = xs @ [[]])
              \<and> split_slash (path_join a b) = xs @ [b]"
proof (cases "last a = CHR ''/''")
  case True
  with assms(1) obtain a' where a: "a = a' @ ''/''"
    by (metis append_butlast_last_id)
  have "split_slash (a' @ CHR ''/'' # b) = split_slash a' @ [b]"
    using assms(2) by (simp add: split_slash_at_slash split_slash_plain plain_def)
  then show ?thesis
    using assms True by (auto simp: path_join_plain a split_slash_trailing)
next
  case False
  have "split_slash (a @ CHR ''/'' # b) = split_slash a @ [b]"
    using assms(2) by (simp add: split_slash_at_slash split_slash_plain plain_def)
  then show ?thesis
    using assms False by (auto simp: path_join_plain)
qed

lemma parts_path_join:
  assumes "plain b"
  shows "filter (\<lambda>part. part \<noteq> []) (split_slash (path_join a b))
         = filter (\<lambda>part. part \<noteq> []) (split_slash a) @ [b]"
proof (cases "a = []")
  case True
  with assms show ?thesis
    by (simp add: path_join_plain split_slash_plain plain_def)
next
  case False
  from split_slash_path_join [OF False assms] obtain xs where
    "split_slash a = xs \<or> split_slash a = xs @ [[]]"
    "split_slash (path_join a b) = xs @ [b]"
    by blast
  with assms show ?thesis by (auto simp: plain_def)
qed

lemma inside_self [simp]: "inside d d"
  by (simp add: inside_def)

lemma inside_append [simp]: "inside d (d @ q)"
  by (simp add: inside_def)

lemma inside_length: "inside d q \<Longrightarrow> length d \<le> length q"
  by (metis inside_def length_take min.cobounded2 min.commute)

lemma inside_iff: "inside d q \<longleftrightarrow> (\<exists>r. q = d @ r)"
  unfolding inside_def
  by (metis append_eq_conv_conj append_take_drop_id)

lemma inside_trans: "inside a b \<Longrightarrow> inside b q \<Longrightarrow> inside a q"
  by (auto simp: inside_iff)

lemma siblings_disjoint:
  "name \<noteq> other \<Longrightarrow> inside (r @ [other]) q \<Longrightarrow> \<not> inside (r @ [name]) q"
  by (auto simp: inside_iff)

lemma categories_differ: "variant_cache_name \<noteq> neoantigen_cache_name"
  by (simp add: variant_cache_name_def neoantigen_cache_name_def)

lemma plain_variant_cache_name: "plain variant_cache_name"
  by (simp add: plain_def variant_cache_name_def)

lemma plain_neoantigen_cache_name: "plain neoantigen_cache_name"
  by (simp add: plain_def neoantigen_cache_name_def)

section \<open>Walking a path\<close>

lemma files_emit [simp]: "files (emit e w) = files w"
  by (simp add: emit_def)

lemma dirs_emit [simp]: "dirs (emit e w) = dirs w"
  by (simp add: emit_def)

lemma cwd_emit [simp]: "cwd (emit e w) = cwd w"
  by (simp add: emit_def)

lemma trace_emit [simp]: "trace (emit e w) = trace w @ [e]"
  by (simp add: emit_def)

lemma is_file_emit [simp]: "is_file (emit e w) q = is_file w q"
  by (simp add: is_file_def)

lemma is_dir_emit [simp]: "is_dir (emit e w) q = is_dir w q"
  by (simp add: is_dir_def)

lemma is_dir_root [simp]: "is_dir w []"
  by (simp add: is_dir_def)

lemma exists_at_emit [simp]: "exists_at (emit e w) q = exists_at w q"
  by (simp add: exists_at_def)

lemma walk_Nil [simp]: "walk w s [] = Some s"
  by (simp add: walk_def)

lemma walk_snoc: "walk w s (xs @ [x]) = walk_step w (walk w s xs) x"
  by (simp add: walk_def)

lemma walk_step_Some:
  "walk_step w st x = Some q \<longleftrightarrow> (\<exists>q0. st = Some q0 \<and> is_dir w q0 \<and> q = norm_step q0 x)"
  by (auto simp: walk_step_def split: option.splits)

lemma walk_snoc_Some:
  "walk w s (xs @ [x]) = Some q \<longleftrightarrow>
     (\<exists>q0. walk w s xs = Some q0 \<and> is_dir w q0 \<and> q = norm_step q0 x)"
  by (simp add: walk_snoc walk_step_Some)

lemma norm_step_plain: "plain b \<Longrightarrow> norm_step q b = q @ [b]"
  by (auto simp: norm_step_def plain_def)

lemma norm_step_empty [simp]: "norm_step q [] = q"
  by (simp add: norm_step_def)

lemma walk_same_dirs:
  "(\<And>q. is_dir w' q = is_dir w q) \<Longrightarrow> walk w' s xs = walk w s xs"
  by (induction xs rule: rev_induct) (auto simp: walk_snoc walk_step_def split: option.splits)

lemma walk_emit [simp]: "walk (emit e w) s xs = walk w s xs"
  by (rule walk_same_dirs) simp

lemma start_dir_emit [simp]: "start_dir (emit e w) p = start_dir w p"
  by (simp add: start_dir_def)

lemma resolve_emit [simp]: "resolve (emit e w) p = resolve w p"
  by (simp add: resolve_def)

lemma resolve_same_dirs:
  "dirs w' = dirs w \<Longrightarrow> cwd w' = cwd w \<Longrightarrow> resolve w' p = resolve w p"
  using walk_same_dirs [of w' w]
  by (simp add: resolve_def start_dir_def is_dir_def)

lemma walk_more_dirs:
  "walk w s xs = Some q \<Longrightarrow> (\<And>t. is_dir w t \<Longrightarrow> is_dir w' t) \<Longrightarrow> walk w' s xs = Some q"
  by (induction xs arbitrary: q rule: rev_induct) (auto simp: walk_snoc_Some)

lemma walk_preserved:
  "walk w s xs = Some q \<Longrightarrow> ''..'' \<notin> set xs
   \<Longrightarrow> (\<And>t. length t \<le> length q \<Longrightarrow> is_dir w t \<Longrightarrow> is_dir w' t)
   \<Longrightarrow> walk w' s xs = Some q"
proof (induction xs arbitrary: q rule: rev_induct)
  case Nil
  then show ?case by simp
next
  case (snoc x xs)
  from snoc.prems(1) obtain q0 where
    q0: "walk w s xs = Some q0" "is_dir w q0" "q = norm_step q0 x"
    by (auto simp: walk_snoc_Some)
  from snoc.prems(2) q0(3) have len: "length q0 \<le> length q"
    by (auto simp: norm_step_def)
  have "walk w' s xs = Some q0"
    using q0(1) snoc.prems(2,3) len by (intro snoc.IH) auto
  moreover have "is_dir w' q0"
    using snoc.prems(3) len q0(2) by blast
  ultimately show ?case
    using q0(3) by (auto simp: walk_snoc_Some)
qed

lemma walk_parts:
  "walk w s xs = Some q \<Longrightarrow> walk w s (filter (\<lambda>part. part \<noteq> []) xs) = Some q"
proof (induction xs arbitrary: q rule: rev_induct)
  case Nil
  then show ?case by simp
next
  case (snoc x xs)
  then show ?case
    by (cases "x = []") (auto simp: walk_snoc_Some)
qed

lemma resolve_parts:
  "resolve w p = Some q
   \<Longrightarrow> walk w (start_dir w p) (filter (\<lambda>part. part \<noteq> []) (split_slash p)) = Some q"
  by (auto simp: resolve_def intro: walk_parts split: if_splits)

lemma start_dir_path_join:
  "plain b \<Longrightarrow> start_dir w (path_join a b) = start_dir w a"
proof (cases "a = []")
  case True
  assume "plain b"
  with True show ?thesis
    by (simp add: start_dir_def path_join_plain plain_relative)
next
  case False
  assume "plain b"
  with False show ?thesis
    by (simp add: start_dir_def startswith_path_join)
qed

lemma resolve_path_join:
  assumes "a \<noteq> []" "plain b"
  shows "resolve w (path_join a b)
         = (case resolve w a of
              None \<Rightarrow> None
            | Some q \<Rightarrow> if is_dir w q then Some (q @ [b]) else None)"
proof -
  from split_slash_path_join [OF assms] obtain xs where
    xs: "split_slash a = xs \<or> split_slash a = xs @ [[]]"
    and j: "split_slash (path_join a b) = xs @ [b]"
    by blast
  have s: "start_dir w (path_join a b) = start_dir w a"
    using assms(2) by (rule start_dir_path_join)
  have ne: "path_join a b \<noteq> []"
    using assms(2) by (intro path_join_nonempty) (simp add: plain_def)
  from xs show ?thesis
  proof
    assume "split_slash a = xs"
    then show ?thesis
      using assms ne
      by (auto simp: resolve_def s j walk_snoc walk_step_def norm_step_plain split: option.splits)
  next
    assume "split_slash a = xs @ [[]]"
    then show ?thesis
      using assms ne
      by (auto simp: resolve_def s j walk_snoc walk_step_def norm_step_plain split: option.splits)
  qed
qed

lemma resolve_relative_plain:
  "plain b \<Longrightarrow> resolve w (path_join [] b) = (if is_dir w (cwd w) then Some (cwd w @ [b]) else None)"
  by (simp add: path_join_plain resolve_def start_dir_def plain_relative split_slash_plain
      walk_def walk_step_def norm_step_plain plain_def)

lemma resolve_category:
  assumes "plain name" "resolve w (path_join d name) = Some q"
  shows "\<exists>r. q = r @ [name] \<and> is_dir w r
           \<and> walk w (start_dir w d) (filter (\<lambda>part. part \<noteq> []) (split_slash d)) = Some r"
proof (cases "d = []")
  case True
  with assms show ?thesis
    by (auto simp: resolve_relative_plain start_dir_def startswith_def split: if_splits)
next
  case False
  with assms obtain r where "resolve w d = Some r" "is_dir w r" "q = r @ [name]"
    by (auto simp: resolve_path_join split: option.splits if_splits)
  then show ?thesis
    by (auto dest: resolve_parts)
qed

section \<open>The file system operations\<close>

lemma map_of_filter_keys:
  "map_of (filter (\<lambda>(q, _). P q) xs) p = (if P p then map_of xs p else None)"
  by (induction xs) auto

lemma path_exists_world [simp]: "snd (path_exists p w) = emit (PathExists p) w"
  by (simp add: path_exists_def)

lemma path_exists_iff:
  "fst (path_exists p w) \<longleftrightarrow> (\<exists>q. resolve w p = Some q \<and> exists_at w q)"
  by (simp add: path_exists_def split: option.splits)

lemma write_file_Inr:
  "write_file p content w = (Inr (), w1) \<longleftrightarrow>
     (\<exists>q. resolve w p = Some q \<and> \<not> is_dir w q
        \<and> w1 = emit (WriteFile p) (w\<lparr>files := AList.update q content (files w)\<rparr>))"
  by (auto simp: write_file_def split: option.splits)

lemma write_file_written:
  assumes "write_file p content w = (Inr (), w1)"
  shows "\<exists>q. resolve w1 p = Some q \<and> map_of (files w1) q = Some content \<and> \<not> is_dir w1 q"
proof -
  from assms obtain q where
    q: "resolve w p = Some q" "\<not> is_dir w q"
    and w1: "w1 = emit (WriteFile p) (w\<lparr>files := AList.update q content (files w)\<rparr>)"
    by (auto simp: write_file_Inr)
  have "resolve w1 p = resolve w p"
    unfolding w1 resolve_emit by (rule resolve_same_dirs) simp_all
  with q w1 show ?thesis
    by (simp add: update_conv' is_dir_def)
qed

lemma rmtree_Inr:
  "resolve w p = Some d \<Longrightarrow> is_dir w d \<Longrightarrow>
   rmtree p w = (Inr (), emit (RmTree p)
                   (w\<lparr>files := filter (\<lambda>(f, _). \<not> inside d f) (files w),
                      dirs := filter (\<lambda>q. \<not> inside d q) (dirs w)\<rparr>))"
  by (simp add: rmtree_def)

lemma mkdir_parts_plain:
  assumes "walk w s xs = Some d" "is_dir w d" "plain b" "\<not> exists_at w (d @ [b])"
  shows "mkdir_parts s (xs @ [b]) w = (Made, w\<lparr>dirs := (d @ [b]) # dirs w\<rparr>)"
  using assms by (simp add: mkdir_parts_def plain_def)

lemma is_dir_added: "is_dir (w\<lparr>dirs := d # dirs w\<rparr>) q \<longleftrightarrow> q = d \<or> is_dir w q"
  by (auto simp: is_dir_def)

lemma is_file_added [simp]: "is_file (w\<lparr>dirs := ds\<rparr>) q = is_file w q"
  by (simp add: is_file_def)

lemma tidy_parent: "tidy w \<Longrightarrow> is_dir w (d @ [b]) \<Longrightarrow> is_dir w d"
  by (auto simp: tidy_def is_dir_def list_all_iff)

lemma makedirs_two_levels:
  assumes walk: "walk w s xs = Some r" "is_dir w r"
    and plain: "plain name" "plain sid"
    and tidy: "tidy w"
    and free: "\<not> is_file w (r @ [name])" "\<not> exists_at w (r @ [name, sid])"
  shows "makedirs_rev s (sid # name # rev xs) w
         = (Made, w\<lparr>dirs := (r @ [name, sid])
                     # (if is_dir w (r @ [name]) then dirs w else (r @ [name]) # dirs w)\<rparr>)"
proof -
  let ?d = "r @ [name]"
  have wd: "walk w s (xs @ [name]) = Some ?d"
    using walk plain(1) by (simp add: walk_snoc_Some norm_step_plain)
  show ?thesis
  proof (cases "is_dir w ?d")
    case True
    then have ex: "exists_parts w s (xs @ [name])"
      by (simp add: exists_parts_def wd exists_at_def)
    have "mkdir_parts s ((xs @ [name]) @ [sid]) w = (Made, w\<lparr>dirs := (?d @ [sid]) # dirs w\<rparr>)"
      using wd True plain(2) free(2) by (intro mkdir_parts_plain) simp_all
    with ex True show ?thesis by simp
  next
    case False
    with free(1) have nex: "\<not> exists_parts w s (xs @ [name])"
      by (simp add: exists_parts_def wd exists_at_def)
    have exr: "xs \<noteq> [] \<Longrightarrow> exists_parts w s xs"
      using walk by (simp add: exists_parts_def exists_at_def)
    let ?w1 = "w\<lparr>dirs := ?d # dirs w\<rparr>"
    have m1: "mkdir_parts s (xs @ [name]) w = (Made, ?w1)"
      using walk plain(1) False free(1)
      by (intro mkdir_parts_plain) (simp_all add: exists_at_def)
    have inner: "makedirs_rev s (name # rev xs) w = (Made, ?w1)"
      using exr m1 by (cases "xs = []") simp_all
    have wd1: "walk ?w1 s (xs @ [name]) = Some ?d"
      using wd by (rule walk_more_dirs) (simp add: is_dir_added)
    have "\<not> is_dir w (?d @ [sid])"
      using tidy_parent [OF tidy, of ?d sid] False by blast
    then have free1: "\<not> exists_at ?w1 (?d @ [sid])"
      using free(2) by (simp add: exists_at_def is_dir_added)
    have m2: "mkdir_parts s ((xs @ [name]) @ [sid]) ?w1
              = (Made, ?w1\<lparr>dirs := (?d @ [sid]) # dirs ?w1\<rparr>)"
      using wd1 _ plain(2) free1 by (rule mkdir_parts_plain) (simp add: is_dir_added)
    from nex inner m2 False plain(2) show ?thesis
      by (simp add: plain_def)
  qed
qed

section \<open>File names and extensions\<close>

lemma basename_append:
  assumes "CHR ''/'' \<notin> set s"
  shows "basename (p @ s) = basename p @ s"
proof -
  have "takeWhile (\<lambda>c. c \<noteq> CHR ''/'') (rev s @ rev p)
          = rev s @ takeWhile (\<lambda>c. c \<noteq> CHR ''/'') (rev p)"
    using assms by (intro takeWhile_append2) auto
  then show ?thesis by (simp add: basename_def)
qed

lemma basename_plain:
  assumes "CHR ''/'' \<notin> set s"
  shows "basename s = s"
proof -
  have e: "takeWhile (\<lambda>c. c \<noteq> CHR ''/'') (rev s) = rev s"
    using assms by (auto simp: takeWhile_eq_all_conv)
  show ?thesis unfolding basename_def e by simp
qed

lemma basename_slash [simp]: "basename (p @ ''/'') = []"
  by (simp add: basename_def)

lemma splitext_ext_suffix:
  assumes "c \<noteq> CHR ''.''" and "CHR ''/'' \<notin> set (c # t @ e)" and "CHR ''.'' \<notin> set e"
  shows "splitext_ext (p @ c # t @ CHR ''.'' # e) = CHR ''.'' # e"
proof -
  let ?s = "c # t @ CHR ''.'' # e"
  have b: "basename (p @ ?s) = basename p @ ?s"
    using assms(2) by (intro basename_append) auto
  obtain z where z: "dropWhile (\<lambda>c. c = CHR ''.'') (basename p @ ?s) = z @ ?s"
  proof (cases "\<forall>x \<in> set (basename p). x = CHR ''.''")
    case True
    then have "dropWhile (\<lambda>c. c = CHR ''.'') (basename p @ ?s) = [] @ ?s"
      using assms(1) by (simp add: dropWhile_append2)
    then show ?thesis by (rule that)
  next
    case False
    then have "dropWhile (\<lambda>c. c = CHR ''.'') (basename p @ ?s)
                 = dropWhile (\<lambda>c. c = CHR ''.'') (basename p) @ ?s"
      by (auto simp: dropWhile_append1)
    then show ?thesis by (rule that)
  qed
  have "takeWhile (\<lambda>c. c \<noteq> CHR ''.'') (rev e @ CHR ''.'' # rev t @ c # rev z)
          = takeWhile (\<lambda>c. c \<noteq> CHR ''.'') (rev e)"
    by (rule takeWhile_tail) simp
  also have "\<dots> = rev e"
    using assms(3) by (auto simp: takeWhile_eq_all_conv)
  finally have "takeWhile (\<lambda>c. c \<noteq> CHR ''.'') (rev (z @ ?s)) = rev e"
    by simp
  then show ?thesis
    by (simp add: splitext_ext_def b z)
qed

lemma path_join_suffix: "\<exists>q. path_join a (x @ s) = q @ s"
  by (auto simp: path_join_def)

lemma variants_file_ext:
  "splitext_ext (cache_file_path c name sid (x @ ''-variants.pkl'')) = ''.pkl''"
proof -
  obtain q where "cache_file_path c name sid (x @ ''-variants.pkl'') = q @ ''-variants.pkl''"
    unfolding cache_file_path_def using path_join_suffix by blast
  then show ?thesis
    using splitext_ext_suffix [of "CHR ''-''" "''variants''" "''pkl''" q] by simp
qed

lemma neoantigens_file_ext:
  "splitext_ext (cache_file_path c name sid (x @ ''-neoantigens.csv'')) = ''.csv''"
proof -
  obtain q where "cache_file_path c name sid (x @ ''-neoantigens.csv'') = q @ ''-neoantigens.csv''"
    unfolding cache_file_path_def using path_join_suffix by blast
  then show ?thesis
    using splitext_ext_suffix [of "CHR ''-''" "''neoantigens''" "''csv''" q] by simp
qed

lemma path_join_prefix:
  assumes "\<not> startswith f ''/''"
  shows "\<exists>q. path_join d f = q @ f \<and> basename q = []"
proof (cases "d = []")
  case True
  with assms have "path_join d f = [] @ f \<and> basename [] = []"
    by (simp add: path_join_def basename_def)
  then show ?thesis by blast
next
  case False
  show ?thesis
  proof (cases "last d = CHR ''/''")
    case True
    with False obtain d' where d: "d = d' @ ''/''"
      by (metis append_butlast_last_id)
    have "path_join d f = d @ f \<and> basename d = []"
      using assms True unfolding d by (simp add: path_join_def)
    then show ?thesis by blast
  next
    case False
    have "path_join d f = (d @ ''/'') @ f \<and> basename (d @ ''/'') = []"
      using assms False \<open>d \<noteq> []\<close> by (simp add: path_join_def)
    then show ?thesis by blast
  qed
qed

lemma splitext_ext_path_join:
  assumes "CHR ''/'' \<notin> set f"
  shows "splitext_ext (path_join d f) = splitext_ext f"
proof -
  have "\<not> startswith f ''/''"
    using assms by (cases f) (auto simp: startswith_def)
  then obtain q where "path_join d f = q @ f" "basename q = []"
    using path_join_prefix by blast
  then have "basename (path_join d f) = basename f"
    using assms by (simp add: basename_append basename_plain)
  then show ?thesis by (simp add: splitext_ext_def)
qed

section \<open>Loading from and saving to the cache\<close>

lemma load_from_cache_disabled:
  "\<not> cache_results c \<Longrightarrow> load_from_cache L c name sid fname w = (Inr PyNone, w)"
  by (simp add: load_from_cache_def)

lemma load_from_cache_miss:
  "cache_results c \<Longrightarrow> \<not> fst (path_exists (cache_file_path c name sid fname) w)
   \<Longrightarrow> load_from_cache L c name sid fname w
       = (Inr PyNone, emit (PathExists (cache_file_path c name sid fname)) w)"
  by (simp add: load_from_cache_def cache_file_path_def path_exists_def split: option.splits)

lemma load_from_cache_hit:
  assumes "cache_results c"
    and "resolve w (cache_file_path c name sid fname) = Some q"
    and "map_of (files w) q = Some content"
  shows "load_from_cache L c name sid fname w
         = (if splitext_ext (cache_file_path c name sid fname) = ''.csv''
            then map_sum id DataFrame (read_csv L content) else pickle_load L content,
            emit (ReadFile (cache_file_path c name sid fname))
              (emit (PathExists (cache_file_path c name sid fname)) w))"
  using assms
  by (simp add: load_from_cache_def cache_file_path_def path_exists_def is_file_def
      exists_at_def read_file_def Let_def)

lemma load_from_cache_same:
  assumes "resolve w' (cache_file_path c name sid fname)
           = resolve w (cache_file_path c name sid fname)"
    and "\<And>q. resolve w (cache_file_path c name sid fname) = Some q
           \<Longrightarrow> map_of (files w') q = map_of (files w) q \<and> is_dir w' q = is_dir w q"
  shows "fst (load_from_cache L c name sid fname w') = fst (load_from_cache L c name sid fname w)"
  using assms
  by (cases "resolve w (cache_file_path c name sid fname)")
    (auto simp: load_from_cache_def path_exists_def read_file_def is_file_def exists_at_def
      and_then_def Let_def cache_file_path_def split: option.splits)

lemma load_from_cache_nowhere:
  "resolve w (cache_file_path c name sid fname) = None
   \<Longrightarrow> fst (load_from_cache L c name sid fname w) = Inr PyNone"
  by (simp add: load_from_cache_def path_exists_def cache_file_path_def Let_def)

lemma save_to_cache_disabled:
  "\<not> cache_results c \<Longrightarrow> save_to_cache L c obj name sid fname w = (Inr (), w)"
  by (simp add: save_to_cache_def)

lemma save_to_cache_write:
  assumes "cache_results c"
    and "save_to_cache L c obj name sid fname w = (Inr (), w1)"
  shows "\<exists>w2. write_file (cache_file_path c name sid fname) (serialised obj) w2 = (Inr (), w1)"
  using assms
  by (cases obj)
    (auto simp: save_to_cache_def cache_file_path_def Let_def serialised_def and_then_cases
      split: prod.splits)

lemma save_to_cache_written:
  assumes "cache_results c"
    and "save_to_cache L c obj name sid fname w = (Inr (), w1)"
  shows "\<exists>q. resolve w1 (cache_file_path c name sid fname) = Some q
             \<and> map_of (files w1) q = Some (serialised obj)"
  using save_to_cache_write [OF assms] write_file_written by blast

lemma tidy_emit [simp]: "tidy (emit e w) = tidy w"
  by (simp add: tidy_def is_dir_def)

lemma resolve_more_dirs:
  "resolve w p = Some q \<Longrightarrow> (\<And>t. is_dir w t \<Longrightarrow> is_dir w' t) \<Longrightarrow> cwd w' = cwd w
   \<Longrightarrow> resolve w' p = Some q"
  by (auto simp: resolve_def start_dir_def intro: walk_more_dirs split: if_splits)

lemma makedirs_sample_dir:
  assumes plain: "plain name" "plain sid"
    and tidy: "tidy w"
    and cat: "resolve w (path_join cd name) = Some d"
    and free: "\<not> is_file w d" "\<not> exists_at w (d @ [sid])"
  shows "\<exists>w1. makedirs (path_join (path_join cd name) sid) w = (Inr (), w1)
              \<and> cwd w1 = cwd w \<and> files w1 = files w
              \<and> (\<forall>t. is_dir w1 t \<longleftrightarrow> t = d @ [sid] \<or> t = d \<or> is_dir w t)"
proof -
  let ?scd = "path_join (path_join cd name) sid"
  let ?xs = "filter (\<lambda>part. part \<noteq> []) (split_slash cd)"
  from resolve_category [OF plain(1) cat] obtain r where
    r: "d = r @ [name]" "is_dir w r" "walk w (start_dir w cd) ?xs = Some r"
    by blast
  have ne: "?scd \<noteq> []"
    using plain(2) by (intro path_join_nonempty) (simp add: plain_def)
  have parts: "rev (filter (\<lambda>part. part \<noteq> []) (split_slash ?scd)) = sid # name # rev ?xs"
    using plain by (simp add: parts_path_join)
  have start: "start_dir w ?scd = start_dir w cd"
    using plain by (simp add: start_dir_path_join)
  have "makedirs_rev (start_dir w cd) (sid # name # rev ?xs) w
         = (Made, w\<lparr>dirs := (r @ [name, sid])
                     # (if is_dir w (r @ [name]) then dirs w else (r @ [name]) # dirs w)\<rparr>)"
    using r(3,2) plain tidy free unfolding r(1)
    by (intro makedirs_two_levels) simp_all
  then have "makedirs ?scd w
         = (Inr (), emit (MakeDirs ?scd)
              (w\<lparr>dirs := (r @ [name, sid])
                     # (if is_dir w (r @ [name]) then dirs w else (r @ [name]) # dirs w)\<rparr>))"
    using ne by (simp add: makedirs_def parts start)
  then show ?thesis
    unfolding r(1) by (auto simp: is_dir_def)
qed


lemma save_to_cache_succeeds:
  assumes plain: "plain name" "plain sid" "plain fname"
    and tidy: "tidy w"
    and cat: "resolve w (path_join (cache_dir c) name) = Some d"
    and free: "\<not> is_file w d" "\<not> is_file w (d @ [sid])" "\<not> is_dir w (d @ [sid, fname])"
  shows "fst (save_to_cache L c obj name sid fname w) = Inr ()"
proof (cases "cache_results c")
  case False
  then show ?thesis by (simp add: save_to_cache_disabled)
next
  case True
  let ?catp = "path_join (cache_dir c) name"
  let ?scd = "path_join ?catp sid"
  let ?cf = "path_join ?scd fname"
  let ?w0 = "emit (PathExists ?scd) w"
  have ne: "?catp \<noteq> []" "?scd \<noteq> []"
    using plain by (simp_all add: path_join_nonempty plain_def)
  have scd: "resolve w ?scd = (if is_dir w d then Some (d @ [sid]) else None)"
    using ne(1) plain(2) cat by (simp add: resolve_path_join)
  have written: "fst (write_file ?cf content w2) = Inr ()"
    if "resolve w2 ?catp = Some d" "is_dir w2 d" "is_dir w2 (d @ [sid])"
      "\<not> is_dir w2 (d @ [sid, fname])" for w2 :: "'a world" and content
    using that ne plain by (simp add: write_file_def resolve_path_join)
  show ?thesis
  proof (cases "fst (path_exists ?scd w)")
    case True
    then have d: "is_dir w d" "exists_at w (d @ [sid])"
      by (auto simp: path_exists_iff scd split: if_splits)
    with free(2) have "is_dir w (d @ [sid])"
      by (simp add: exists_at_def)
    with d(1) cat free(3) have "fst (write_file ?cf content ?w0) = Inr ()" for content
      by (intro written) simp_all
    moreover from True have "path_exists ?scd w = (True, ?w0)"
      by (simp add: path_exists_def)
    ultimately show ?thesis
      using \<open>cache_results c\<close>
      by (cases obj) (simp_all add: save_to_cache_def Let_def)
  next
    case False
    have "\<not> is_dir w (d @ [sid])"
    proof
      assume a: "is_dir w (d @ [sid])"
      with tidy have "is_dir w d" by (rule tidy_parent)
      with a False show False
        by (simp add: path_exists_iff scd exists_at_def)
    qed
    with free(2) have nex: "\<not> exists_at ?w0 (d @ [sid])"
      by (simp add: exists_at_def)
    have "\<exists>w1. makedirs ?scd ?w0 = (Inr (), w1) \<and> cwd w1 = cwd ?w0 \<and> files w1 = files ?w0
            \<and> (\<forall>t. is_dir w1 t \<longleftrightarrow> t = d @ [sid] \<or> t = d \<or> is_dir ?w0 t)"
      using plain(1,2) _ _ _ nex by (rule makedirs_sample_dir) (simp_all add: tidy cat free(1))
    then obtain w1 where
      w1: "makedirs ?scd ?w0 = (Inr (), w1)" "cwd w1 = cwd ?w0"
        "\<forall>t. is_dir w1 t \<longleftrightarrow> t = d @ [sid] \<or> t = d \<or> is_dir ?w0 t"
      by blast
    have "resolve w1 ?catp = Some d"
      using cat by (rule resolve_more_dirs) (simp_all add: w1(2,3))
    moreover have "\<not> is_dir w1 (d @ [sid, fname])"
      using free(3) by (simp add: w1(3))
    ultimately have "fst (write_file ?cf content w1) = Inr ()" for content
      by (intro written) (simp_all add: w1(3))
    moreover from False have "path_exists ?scd w = (False, ?w0)"
      by (simp add: path_exists_def)
    ultimately show ?thesis
      using \<open>cache_results c\<close> w1(1)
      by (cases obj) (simp_all add: save_to_cache_def Let_def)
  qed
qed

lemma save_to_cache_blocked:
  assumes on: "cache_results c"
    and plain: "plain name" "plain sid" "plain fname"
    and cat: "resolve w (path_join (cache_dir c) name) = Some d" "is_dir w d"
    and reg: "is_file w (d @ [sid])" "\<not> is_dir w (d @ [sid])"
  shows "fst (save_to_cache L c obj name sid fname w) = Inl IOError"
proof -
  let ?catp = "path_join (cache_dir c) name"
  let ?scd = "path_join ?catp sid"
  let ?cf = "path_join ?scd fname"
  let ?w0 = "emit (PathExists ?scd) w"
  have ne: "?catp \<noteq> []" "?scd \<noteq> []"
    using plain by (simp_all add: path_join_nonempty plain_def)
  have scd: "resolve w ?scd = Some (d @ [sid])"
    using ne(1) plain(2) cat by (simp add: resolve_path_join)
  with reg(1) have "path_exists ?scd w = (True, ?w0)"
    by (simp add: path_exists_def exists_at_def)
  moreover have "resolve ?w0 ?cf = None"
    using ne(2) plain(3) scd reg(2) by (simp add: resolve_path_join)
  then have "fst (write_file ?cf content ?w0) = Inl IOError" for content
    by (simp add: write_file_def)
  ultimately show ?thesis
    using on by (cases obj) (simp_all add: save_to_cache_def Let_def)
qed


section \<open>Loading and merging the raw sets\<close>

lemma load_combined_variants_length:
  "load_combined_variants L c fs sid nid tid acc w = (Inr sets, w')
   \<Longrightarrow> length sets = length acc + length fs"
proof (induction fs arbitrary: acc w)
  case Nil
  then show ?case by simp
next
  case (Cons f fs)
  then show ?case
    by (auto simp: Let_def and_then_cases)
qed

lemma foldl_union: "foldl (\<union>) s ss = s \<union> \<Union> (set ss)"
  by (induction ss arbitrary: s) auto

lemma foldl_inter: "foldl (\<inter>) s ss = s \<inter> \<Inter> (set ss)"
  by (induction ss arbitrary: s) auto

lemma set_union_eq: "sets \<noteq> [] \<Longrightarrow> set_union sets = Inr (\<Union> (set sets))"
  by (cases sets) (simp_all add: foldl_union)

lemma set_intersection_eq: "sets \<noteq> [] \<Longrightarrow> set_intersection sets = Inr (\<Inter> (set sets))"
  by (cases sets) (simp_all add: foldl_inter)

lemma merge_variants_union:
  "2 \<le> length sets \<Longrightarrow>
   merge_variants sets (Some ''union'') = Inr (VariantCollection (\<Union> (set sets)))"
proof -
  assume "2 \<le> length sets"
  then have "sets \<noteq> []" "length sets \<noteq> 1" by auto
  then show ?thesis by (simp add: merge_variants_def set_union_eq)
qed

lemma merge_variants_intersection:
  "2 \<le> length sets \<Longrightarrow>
   merge_variants sets (Some ''intersection'')
     = Inr (VariantCollection (\<Inter> (set sets)))"
proof -
  assume "2 \<le> length sets"
  then have "sets \<noteq> []" "length sets \<noteq> 1" by auto
  then show ?thesis by (simp add: merge_variants_def set_intersection_eq)
qed

lemma merge_variants_mismatch:
  "(length sets = 1 \<and> merge_type \<noteq> None)
   \<or> (2 \<le> length sets \<and> merge_type \<noteq> Some ''union'' \<and> merge_type \<noteq> Some ''intersection'')
   \<Longrightarrow> merge_variants sets merge_type = Inl AssertionError"
  by (auto simp: merge_variants_def)

lemma load_single_sample_variants_miss:
  assumes "sample_idx < length (sample_ids c)"
    and "sample_idx < length (normal_bam_ids c)"
    and "sample_idx < length (tumor_bam_ids c)"
    and "load_from_cache L c variant_cache_name (sample_ids c ! sample_idx)
           (variant_type @ ''-'' @ str_of merge_type @ ''-variants.pkl'') w = (Inr PyNone, w1)"
    and "load_combined_variants L c file_format_funcs (sample_ids c ! sample_idx)
           (normal_bam_ids c ! sample_idx) (tumor_bam_ids c ! sample_idx) [] w1
         = (Inr raw_sets, w2)"
  shows "load_single_sample_variants L c sample_idx file_format_funcs variant_type merge_type w
         = and_then (merge_variants raw_sets merge_type, w2)
             (\<lambda>merged_variants w3.
                and_then (save_to_cache L c merged_variants variant_cache_name
                            (sample_ids c ! sample_idx)
                            (variant_type @ ''-'' @ str_of merge_type @ ''-variants.pkl'') w3)
                  (\<lambda>_ w4. (Inr merged_variants, w4)))"
  using assms by (simp add: load_single_sample_variants_def index_def)

section \<open>The two cohort loops\<close>

lemma and_then_assoc:
  "and_then (and_then m f) g = and_then m (\<lambda>x w. and_then (f x w) g)"
  by (cases m; cases "fst m") (auto simp: and_then_def)

lemma load_neoantigens_loop_append:
  "load_neoantigens_loop L c vt mt args (xs @ ys) dfs w
     = and_then (load_neoantigens_loop L c vt mt args xs dfs w)
         (\<lambda>dfs' w'. load_neoantigens_loop L c vt mt args ys dfs' w')"
proof (induction xs arbitrary: dfs w)
  case Nil
  show ?case by simp
next
  case (Cons x xs)
  obtain i sid where x: "x = (i, sid)" by (cases x)
  show ?case
  proof (cases "load_single_sample_neoantigens L c i vt mt args w")
    case (Pair r w1)
    then show ?thesis by (cases r) (simp_all add: x Cons.IH)
  qed
qed

lemma load_neoantigens_loop_results:
  "load_neoantigens_loop L c vt mt args xs acc w = (Inr dfs, w') \<Longrightarrow>
   \<exists>new. dfs = acc @ new \<and> length new = length xs
     \<and> (\<forall>k < length xs. \<exists>w1 w2.
           load_neoantigens_loop L c vt mt args (take k xs) acc w = (Inr (acc @ take k new), w1)
         \<and> load_single_sample_neoantigens L c (fst (xs ! k)) vt mt args w1 = (Inr (new ! k), w2))"
proof (induction xs arbitrary: dfs w' rule: rev_induct)
  case Nil
  then show ?case by simp
next
  case (snoc x xs)
  obtain i sid where x: "x = (i, sid)" by (cases x)
  from snoc.prems obtain dfs1 w1 where
    pre: "load_neoantigens_loop L c vt mt args xs acc w = (Inr dfs1, w1)"
    and last: "load_neoantigens_loop L c vt mt args [x] dfs1 w1 = (Inr dfs, w')"
    by (auto simp: load_neoantigens_loop_append and_then_cases)
  from last obtain df where
    df: "load_single_sample_neoantigens L c i vt mt args w1 = (Inr df, w')"
    and dfs: "dfs = dfs1 @ [df]"
    by (auto simp: x and_then_cases)
  from snoc.IH [OF pre] obtain new where
    new: "dfs1 = acc @ new" "length new = length xs"
    and steps: "\<forall>k < length xs. \<exists>w1 w2.
           load_neoantigens_loop L c vt mt args (take k xs) acc w = (Inr (acc @ take k new), w1)
         \<and> load_single_sample_neoantigens L c (fst (xs ! k)) vt mt args w1 = (Inr (new ! k), w2)"
    by blast
  have "\<forall>k < length (xs @ [x]). \<exists>w1 w2.
           load_neoantigens_loop L c vt mt args (take k (xs @ [x])) acc w
             = (Inr (acc @ take k (new @ [df])), w1)
         \<and> load_single_sample_neoantigens L c (fst ((xs @ [x]) ! k)) vt mt args w1
             = (Inr ((new @ [df]) ! k), w2)"
  proof (intro allI impI)
    fix k assume "k < length (xs @ [x])"
    then consider "k < length xs" | "k = length xs" by fastforce
    then show "\<exists>w1 w2.
           load_neoantigens_loop L c vt mt args (take k (xs @ [x])) acc w
             = (Inr (acc @ take k (new @ [df])), w1)
         \<and> load_single_sample_neoantigens L c (fst ((xs @ [x]) ! k)) vt mt args w1
             = (Inr ((new @ [df]) ! k), w2)"
    proof cases
      case 1
      with steps new(2) show ?thesis by (simp add: nth_append)
    next
      case 2
      with pre df new show ?thesis by (auto simp: x nth_append)
    qed
  qed
  with dfs new show ?case
    by (intro exI [of _ "new @ [df]"]) simp
qed

lemma pd_concat_Inr:
  "pd_concat dfs = Inr t \<Longrightarrow>
   dfs \<noteq> [] \<and> (\<exists>tables. dfs = map DataFrame tables \<and> t = DataFrame (concat tables))"
proof -
  assume a: "pd_concat dfs = Inr t"
  then have ne: "dfs \<noteq> []" and all: "\<forall>d \<in> set dfs. frame_rows d \<noteq> None"
    and t: "t = DataFrame (concat (map (\<lambda>d. the (frame_rows d)) dfs))"
    by (auto simp: pd_concat_def list_ex_iff split: if_splits)
  have h: "\<And>d. frame_rows d \<noteq> None \<Longrightarrow> DataFrame (the (frame_rows d)) = d"
    by (case_tac d) auto
  from all have "dfs = map DataFrame (map (\<lambda>d. the (frame_rows d)) dfs)"
    by (induction dfs) (auto simp: h)
  with ne t show ?thesis by blast
qed

lemma load_variants_loop_append:
  "load_variants_loop L c vt mt (xs @ ys) acc w
     = and_then (load_variants_loop L c vt mt xs acc w)
         (\<lambda>acc' w'. load_variants_loop L c vt mt ys acc' w')"
proof (induction xs arbitrary: acc w)
  case Nil
  show ?case by simp
next
  case (Cons x xs)
  obtain i sid where x: "x = (i, sid)" by (cases x)
  show ?case
  proof (cases "getitem (variant_type_to_format_funcs c) vt")
    case (Inl e)
    then show ?thesis by (simp add: x)
  next
    case (Inr funcs)
    show ?thesis
    proof (cases "load_single_sample_variants L c i funcs vt mt w")
      case (Pair r w1)
      with Inr show ?thesis by (cases r) (simp_all add: x Cons.IH)
    qed
  qed
qed

lemma load_variants_loop_step:
  "load_variants_loop L c vt mt [(i, sid)] acc w = (Inr m, w') \<longleftrightarrow>
     (\<exists>funcs. getitem (variant_type_to_format_funcs c) vt = Inr funcs \<and>
        ((\<exists>w1. load_single_sample_variants L c i funcs vt mt w = (Inl IOError, w1)
               \<and> m = acc \<and> w' = emit (Print (''Variants did not exist for '' @ sid)) w1)
         \<or> (\<exists>v. load_single_sample_variants L c i funcs vt mt w = (Inr v, w')
               \<and> m = AList.update sid v acc)))"
proof (cases "getitem (variant_type_to_format_funcs c) vt")
  case (Inl e)
  then show ?thesis by simp
next
  case (Inr funcs)
  show ?thesis
  proof (cases "load_single_sample_variants L c i funcs vt mt w")
    case (Pair r w1)
    with Inr show ?thesis by (cases r) auto
  qed
qed

lemma load_variants_loop_never_IOError:
  "fst (load_variants_loop L c vt mt xs acc w) \<noteq> Inl IOError"
proof (induction xs arbitrary: acc w)
  case Nil
  show ?case by simp
next
  case (Cons x xs)
  obtain i sid where x: "x = (i, sid)" by (cases x)
  show ?case
  proof (cases "getitem (variant_type_to_format_funcs c) vt")
    case (Inl e)
    then show ?thesis by (auto simp: x getitem_def split: option.splits)
  next
    case (Inr funcs)
    show ?thesis
    proof (cases "load_single_sample_variants L c i funcs vt mt w")
      case (Pair r w1)
      with Inr Cons.IH show ?thesis by (cases r) (simp_all add: x)
    qed
  qed
qed

lemma load_variants_loop_snoc:
  "load_variants_loop L c vt mt (xs @ [(i, sid)]) acc w = (Inr m, w') \<longleftrightarrow>
     (\<exists>acc1 w1. load_variants_loop L c vt mt xs acc w = (Inr acc1, w1)
        \<and> load_variants_loop L c vt mt [(i, sid)] acc1 w1 = (Inr m, w'))"
  by (auto simp: load_variants_loop_append and_then_cases)

lemma load_variants_loop_keys:
  "load_variants_loop L c vt mt xs acc w = (Inr m, w') \<Longrightarrow>
   fst ` set m = fst ` set acc \<union>
     {sid. \<exists>pre i post acc1 w1 funcs v w2.
        xs = pre @ (i, sid) # post
        \<and> load_variants_loop L c vt mt pre acc w = (Inr acc1, w1)
        \<and> getitem (variant_type_to_format_funcs c) vt = Inr funcs
        \<and> load_single_sample_variants L c i funcs vt mt w1 = (Inr v, w2)}"
proof (induction xs arbitrary: m w' rule: rev_induct)
  case Nil
  then show ?case by simp
next
  case (snoc x xs)
  let ?R = "\<lambda>ys sid. \<exists>pre i post acc1 w1 funcs v w2.
        ys = pre @ (i, sid) # post
        \<and> load_variants_loop L c vt mt pre acc w = (Inr acc1, w1)
        \<and> getitem (variant_type_to_format_funcs c) vt = Inr funcs
        \<and> load_single_sample_variants L c i funcs vt mt w1 = (Inr v, w2)"
  obtain i sid' where x: "x = (i, sid')" by (cases x)
  from snoc.prems obtain acc1 w1 where
    pre: "load_variants_loop L c vt mt xs acc w = (Inr acc1, w1)"
    and last: "load_variants_loop L c vt mt [(i, sid')] acc1 w1 = (Inr m, w')"
    unfolding x load_variants_loop_snoc by blast
  have IH: "fst ` set acc1 = fst ` set acc \<union> {sid. ?R xs sid}"
    using snoc.IH [OF pre] .
  from last obtain funcs where
    funcs: "getitem (variant_type_to_format_funcs c) vt = Inr funcs"
    and res: "(\<exists>w2. load_single_sample_variants L c i funcs vt mt w1 = (Inl IOError, w2)
                 \<and> m = acc1)
              \<or> (\<exists>v. load_single_sample_variants L c i funcs vt mt w1 = (Inr v, w')
                 \<and> m = AList.update sid' v acc1)"
    unfolding load_variants_loop_step by blast
  have R: "?R (xs @ [x]) sid \<longleftrightarrow>
             ?R xs sid \<or> (sid = sid' \<and> (\<exists>v w2. load_single_sample_variants L c i funcs vt mt w1
                                              = (Inr v, w2)))" for sid
  proof
    assume "?R (xs @ [x]) sid"
    then obtain pre' j post a1 u1 fs v u2 where
      d: "xs @ [x] = pre' @ (j, sid) # post"
      and p: "load_variants_loop L c vt mt pre' acc w = (Inr a1, u1)"
      and g: "getitem (variant_type_to_format_funcs c) vt = Inr fs"
      and r: "load_single_sample_variants L c j fs vt mt u1 = (Inr v, u2)"
      by blast
    show "?R xs sid \<or> (sid = sid' \<and> (\<exists>v w2. load_single_sample_variants L c i funcs vt mt w1
                                              = (Inr v, w2)))"
    proof (cases post rule: rev_cases)
      case Nil
      with d have "pre' = xs" "j = i" "sid = sid'" by (auto simp: x)
      with p pre g funcs r show ?thesis by auto
    next
      case (snoc post' y)
      with d have "xs = pre' @ (j, sid) # post'" by simp
      with p g r show ?thesis by blast
    qed
  next
    assume "?R xs sid \<or> (sid = sid' \<and> (\<exists>v w2. load_single_sample_variants L c i funcs vt mt w1
                                              = (Inr v, w2)))"
    then show "?R (xs @ [x]) sid"
    proof
      assume "?R xs sid"
      then obtain pre' j post a1 u1 fs v u2 where
        "xs = pre' @ (j, sid) # post"
        "load_variants_loop L c vt mt pre' acc w = (Inr a1, u1)"
        "getitem (variant_type_to_format_funcs c) vt = Inr fs"
        "load_single_sample_variants L c j fs vt mt u1 = (Inr v, u2)"
        by blast
      then have "xs @ [x] = pre' @ (j, sid) # (post @ [x])
          \<and> load_variants_loop L c vt mt pre' acc w = (Inr a1, u1)
          \<and> getitem (variant_type_to_format_funcs c) vt = Inr fs
          \<and> load_single_sample_variants L c j fs vt mt u1 = (Inr v, u2)"
        by simp
      then show ?thesis by blast
    next
      assume "sid = sid' \<and> (\<exists>v w2. load_single_sample_variants L c i funcs vt mt w1
                                              = (Inr v, w2))"
      then obtain v w2 where
        "xs @ [x] = xs @ (i, sid) # []
          \<and> load_variants_loop L c vt mt xs acc w = (Inr acc1, w1)
          \<and> getitem (variant_type_to_format_funcs c) vt = Inr funcs
          \<and> load_single_sample_variants L c i funcs vt mt w1 = (Inr v, w2)"
        using pre funcs by (auto simp: x)
      then show ?thesis by blast
    qed
  qed
  from res show ?case
  proof
    assume "\<exists>w2. load_single_sample_variants L c i funcs vt mt w1 = (Inl IOError, w2) \<and> m = acc1"
    then obtain w2 where
      f: "load_single_sample_variants L c i funcs vt mt w1 = (Inl IOError, w2)" and m: "m = acc1"
      by blast
    from f have "{sid. ?R (xs @ [x]) sid} = {sid. ?R xs sid}"
      unfolding R by auto
    with IH m show ?thesis by simp
  next
    assume "\<exists>v. load_single_sample_variants L c i funcs vt mt w1 = (Inr v, w')
                 \<and> m = AList.update sid' v acc1"
    then obtain v where
      f: "load_single_sample_variants L c i funcs vt mt w1 = (Inr v, w')"
      and m: "m = AList.update sid' v acc1"
      by blast
    from f have "{sid. ?R (xs @ [x]) sid} = {sid. ?R xs sid} \<union> {sid'}"
      unfolding R by auto
    with IH m show ?thesis by (auto simp: dom_update)
  qed
qed

lemma load_variants_loop_preserves:
  "load_variants_loop L c vt mt xs acc w = (Inr m, w') \<Longrightarrow> sid \<notin> snd ` set xs
   \<Longrightarrow> map_of m sid = map_of acc sid"
proof (induction xs arbitrary: m w' rule: rev_induct)
  case Nil
  then show ?case by simp
next
  case (snoc x xs)
  obtain i sid' where x: "x = (i, sid')" by (cases x)
  from snoc.prems(1) obtain acc1 w1 where
    pre: "load_variants_loop L c vt mt xs acc w = (Inr acc1, w1)"
    and last: "load_variants_loop L c vt mt [(i, sid')] acc1 w1 = (Inr m, w')"
    unfolding x load_variants_loop_snoc by blast
  from snoc.prems(2) have ne: "sid' \<noteq> sid" and "sid \<notin> snd ` set xs"
    by (auto simp: x)
  with snoc.IH [OF pre] have "map_of acc1 sid = map_of acc sid" by simp
  moreover from last ne have "map_of m sid = map_of acc1 sid"
    unfolding load_variants_loop_step by (auto simp: update_conv')
  ultimately show ?case by simp
qed


section \<open>Missing source files and planted cache entries\<close>

lemma load_combined_variants_append:
  "load_combined_variants L c (fs @ gs) sid nid tid acc w
     = and_then (load_combined_variants L c fs sid nid tid acc w)
         (\<lambda>acc' w'. load_combined_variants L c gs sid nid tid acc' w')"
proof (induction fs arbitrary: acc w)
  case Nil
  show ?case by simp
next
  case (Cons f fs)
  show ?case
  proof (cases "load_vcf_fast L (path_join (data_dir c) (f sid nid tid))
                  (emit (FormatFuncCall sid nid tid) w)")
    case (Pair r w1)
    then show ?thesis by (cases r) (simp_all add: Let_def Cons.IH)
  qed
qed

lemma load_vcf_fast_missing:
  "\<not> fst (path_exists p w) \<Longrightarrow> load_vcf_fast L p w = (Inl IOError, emit (ReadFile p) w)"
  by (auto simp: load_vcf_fast_def read_file_def path_exists_iff exists_at_def is_file_def
      split: option.splits)

lemma missing_source_file_raises:
  assumes "sample_idx < length (sample_ids c)"
    and "sample_idx < length (normal_bam_ids c)"
    and "sample_idx < length (tumor_bam_ids c)"
    and "load_from_cache L c variant_cache_name (sample_ids c ! sample_idx)
           (variant_type @ ''-'' @ str_of merge_type @ ''-variants.pkl'') w = (Inr PyNone, w1)"
    and "file_format_funcs = before @ f # after"
    and "load_combined_variants L c before (sample_ids c ! sample_idx)
           (normal_bam_ids c ! sample_idx) (tumor_bam_ids c ! sample_idx) [] w1
         = (Inr raw_sets, w2)"
    and "\<not> fst (path_exists
           (path_join (data_dir c)
              (f (sample_ids c ! sample_idx) (normal_bam_ids c ! sample_idx)
                 (tumor_bam_ids c ! sample_idx))) w2)"
  shows "fst (load_single_sample_variants L c sample_idx file_format_funcs variant_type
                merge_type w) = Inl IOError"
proof -
  let ?p = "path_join (data_dir c)
              (f (sample_ids c ! sample_idx) (normal_bam_ids c ! sample_idx)
                 (tumor_bam_ids c ! sample_idx))"
  let ?e = "FormatFuncCall (sample_ids c ! sample_idx) (normal_bam_ids c ! sample_idx)
              (tumor_bam_ids c ! sample_idx)"
  have "\<not> fst (path_exists ?p (emit ?e w2))"
    using assms(7) by (simp add: path_exists_iff)
  then have "load_vcf_fast L ?p (emit ?e w2) = (Inl IOError, emit (ReadFile ?p) (emit ?e w2))"
    by (rule load_vcf_fast_missing)
  with assms(1-6) show ?thesis
    by (simp add: load_single_sample_variants_def index_def load_combined_variants_append
        Let_def)
qed

lemma neoantigens_unknown_variant_type_cached:
  "fst (load_neoantigens example_libs (example_cohort\<lparr>sample_ids := [''s1'']\<rparr>) ''foo''
          (Some ''union'') example_args
          (example_cached_world\<lparr>files :=
             [([''work'', ''cache'', ''cached-neoantigens'', ''s1'', ''foo-union-neoantigens.csv''],
               to_csv example_table)]\<rparr>))
     = Inr (DataFrame example_table)"
  by code_simp


section \<open>The table format\<close>

lemma of_char_digit_char: "d < 10 \<Longrightarrow> (of_char (digit_char d) :: nat) = 48 + d"
  by (simp add: digit_char_def)

lemma is_digit_digit_char: "d < 10 \<Longrightarrow> is_digit (digit_char d)"
  by (simp add: is_digit_def of_char_digit_char)

lemma digit_val_digit_char: "d < 10 \<Longrightarrow> digit_val (digit_char d) = d"
  by (simp add: digit_val_def of_char_digit_char)

lemma digits_nonempty: "digits n \<noteq> []"
  by (subst digits.simps) simp

lemma digits_all: "list_all is_digit (digits n)"
proof (induction n rule: digits.induct)
  case (1 n)
  then show ?case
    by (subst digits.simps) (simp add: is_digit_digit_char)
qed

lemma parse_nat_snoc: "parse_nat (xs @ [ch]) = 10 * parse_nat xs + digit_val ch"
  by (simp add: parse_nat_def)

lemma parse_nat_digits: "parse_nat (digits n) = n"
proof (induction n rule: digits.induct)
  case (1 n)
  show ?case
  proof (cases "n < 10")
    case True
    then show ?thesis
      by (subst digits.simps) (simp add: parse_nat_def digit_val_digit_char)
  next
    case False
    with 1 have "parse_nat (digits (n div 10)) = n div 10" by simp
    with False show ?thesis
      by (subst digits.simps) (simp add: parse_nat_snoc digit_val_digit_char)
  qed
qed

lemma all_digits_digits: "all_digits (digits n)"
  by (simp add: all_digits_def digits_nonempty digits_all)

lemma is_digit_not_sign: "is_digit ch \<Longrightarrow> ch \<noteq> CHR ''-'' \<and> ch \<noteq> CHR ''+''"
  by (auto simp: is_digit_def)

lemma int_literal_digits: "int_literal (digits n) = Some (int n)"
proof (cases "digits n")
  case Nil
  then show ?thesis by (simp add: digits_nonempty)
next
  case (Cons ch rest)
  have "is_digit ch"
    using digits_all [of n] by (simp add: Cons)
  then have "ch \<noteq> CHR ''-''" "ch \<noteq> CHR ''+''"
    using is_digit_not_sign by blast+
  then show ?thesis
    using all_digits_digits [of n] parse_nat_digits [of n]
    by (simp add: int_literal_def Cons)
qed

lemma int_literal_render: "int_literal (render_int i) = Some i"
proof (cases "i < 0")
  case True
  then show ?thesis
    by (simp add: render_int_def int_literal_def all_digits_digits parse_nat_digits)
next
  case False
  then show ?thesis
    by (simp add: render_int_def int_literal_digits)
qed

lemma int_field_render: "in_int64 i \<Longrightarrow> int_field (render_int i) = Some i"
  by (simp add: int_field_def int_literal_render)

lemma surely_text_first:
  "surely_text s \<Longrightarrow>
   \<exists>ch rest. s = ch # rest \<and> \<not> is_digit ch \<and> ch \<noteq> CHR ''-'' \<and> ch \<noteq> CHR ''+''
     \<and> ch \<notin> set ''#-1<Nn''"
  by (cases s) (auto simp: surely_text_def is_digit_def)

lemma surely_text_not_int: "surely_text s \<Longrightarrow> int_field s = None"
  by (auto simp: int_field_def int_literal_def all_digits_def dest!: surely_text_first)

lemma na_values_first: "s \<in> set na_values \<Longrightarrow> s = [] \<or> hd s \<in> set ''#-1<Nn''"
  by (auto simp: na_values_def)

lemma surely_text_not_na: "surely_text s \<Longrightarrow> s \<notin> set na_values"
  by (auto dest!: surely_text_first na_values_first)

lemma infer_column_ints:
  assumes "cells \<noteq> []" "list_all int_cell cells"
  shows "infer_column (map render_cell cells) = cells"
proof -
  have "int_field (render_cell cl) \<noteq> None \<and> Num (the (int_field (render_cell cl))) = cl"
    if "cl \<in> set cells" for cl
  proof -
    from that assms(2) have "int_cell cl" by (simp add: list_all_iff)
    then obtain i where "cl = Num i" "in_int64 i"
      by (cases cl) (auto simp: int_cell_def)
    then show ?thesis by (simp add: int_field_render)
  qed
  then show ?thesis
    using assms(1) by (simp add: infer_column_def list_all_iff map_idI)
qed

lemma infer_column_texts:
  assumes "cells \<noteq> []" "list_all text_cell cells"
  shows "infer_column (map render_cell cells) = cells"
proof -
  have each: "surely_text (render_cell cl) \<and> Str (render_cell cl) = cl"
    if "cl \<in> set cells" for cl
  proof -
    from that assms(2) have "text_cell cl" by (simp add: list_all_iff)
    then obtain s where "cl = Str s" "surely_text s"
      by (cases cl) (auto simp: text_cell_def)
    then show ?thesis by simp
  qed
  from assms(1) obtain cl where "cl \<in> set cells" by (cases cells) auto
  with each have "\<exists>cl \<in> set cells. int_field (render_cell cl) = None"
    and "\<exists>cl \<in> set cells. surely_text (render_cell cl)"
    by (auto intro: surely_text_not_int)
  then have no: "(map render_cell cells \<noteq> []
                   \<and> list_all (\<lambda>f. int_field f \<noteq> None) (map render_cell cells)) = False"
    and yes: "list_ex surely_text (map render_cell cells) = True"
    by (auto simp: list_all_iff list_ex_iff)
  from each have "\<forall>cl \<in> set cells.
      (if render_cell cl \<in> set na_values then NaN else Str (render_cell cl)) = cl"
    by (auto dest: surely_text_not_na)
  then show ?thesis
    unfolding infer_column_def no yes by (simp add: map_idI)
qed

lemma map_of_distinct_keys:
  assumes "distinct (map fst r)"
  shows "map (\<lambda>k. f (map_of r k)) (map fst r) = map (\<lambda>x. f (Some (snd x))) r"
proof -
  have "\<forall>x \<in> set r. map_of r (fst x) = Some (snd x)"
    using assms by auto
  then show ?thesis by simp
qed

lemma csv_round_trip:
  assumes "csv_stable df"
  shows "read_csv (L :: 'v libs) (to_csv df) = Inr df"
proof -
  from assms obtain r0 rest where df: "df = r0 # rest"
    by (cases df) (auto simp: csv_stable_def)
  let ?cols = "map fst r0"
  let ?n = "length r0"
  let ?R = "map (\<lambda>r. map (\<lambda>x. render_cell (snd x)) r) df"
  from assms have ne: "r0 \<noteq> []" and dist: "distinct ?cols"
    and same: "\<forall>r \<in> set df. map fst r = ?cols"
    and cols: "\<forall>j < ?n. list_all (\<lambda>r. int_cell (snd (r ! j))) df
                        \<or> list_all (\<lambda>r. text_cell (snd (r ! j))) df"
    by (auto simp: csv_stable_def df list_all_iff)
  have len: "\<forall>r \<in> set df. length r = ?n"
    using same by (metis length_map)
  have "map (\<lambda>r. map (\<lambda>col. case map_of r col of None \<Rightarrow> [] | Some cl \<Rightarrow> render_cell cl) ?cols) df
        = ?R"
  proof (rule map_cong [OF refl])
    fix r assume r: "r \<in> set df"
    with same dist have d: "distinct (map fst r)" and e: "?cols = map fst r" by auto
    show "map (\<lambda>col. case map_of r col of None \<Rightarrow> [] | Some cl \<Rightarrow> render_cell cl) ?cols
          = map (\<lambda>x. render_cell (snd x)) r"
      unfolding e
      using map_of_distinct_keys [OF d, of "\<lambda>v. case v of None \<Rightarrow> [] | Some cl \<Rightarrow> render_cell cl"]
      by simp
  qed
  then have csv: "(to_csv df :: 'v content) = Csv ?cols ?R"
    by (simp add: to_csv_def df)
  have column: "infer_column (map (\<lambda>rec. if j < length rec then rec ! j else []) ?R)
                = map (\<lambda>r. snd (r ! j)) df" if j: "j < ?n" for j
  proof -
    have eq: "map (\<lambda>rec. if j < length rec then rec ! j else []) ?R
          = map render_cell (map (\<lambda>r. snd (r ! j)) df)"
      using len j by (simp add: comp_def)
    have "infer_column (map render_cell (map (\<lambda>r. snd (r ! j)) df))
                   = map (\<lambda>r. snd (r ! j)) df"
    proof -
      have nonempty: "map (\<lambda>r. snd (r ! j)) df \<noteq> []" by (simp add: df)
      from cols j show ?thesis
      proof (elim allE impE disjE)
        show "j < ?n" by (rule j)
      next
        assume "list_all (\<lambda>r. int_cell (snd (r ! j))) df"
        then have "list_all int_cell (map (\<lambda>r. snd (r ! j)) df)"
          by (simp add: list_all_iff)
        with nonempty show ?thesis by (rule infer_column_ints)
      next
        assume "list_all (\<lambda>r. text_cell (snd (r ! j))) df"
        then have "list_all text_cell (map (\<lambda>r. snd (r ! j)) df)"
          by (simp add: list_all_iff)
        with nonempty show ?thesis by (rule infer_column_texts)
      qed
    qed
    then show ?thesis by (simp only: eq)
  qed
  have "read_csv_fields ?cols ?R = Inr df"
  proof -
    have rows: "map (\<lambda>i. map (\<lambda>j. (?cols ! j,
                        map (\<lambda>j. infer_column (map (\<lambda>rec. if j < length rec then rec ! j else []) ?R))
                          [0..<?n] ! j ! i)) [0..<?n]) [0..<length df] = df"
    proof (rule nth_equalityI)
      show "length (map (\<lambda>i. map (\<lambda>j. (?cols ! j,
                        map (\<lambda>j. infer_column (map (\<lambda>rec. if j < length rec then rec ! j else []) ?R))
                          [0..<?n] ! j ! i)) [0..<?n]) [0..<length df]) = length df"
        by simp
    next
      fix i
      assume "i < length (map (\<lambda>i. map (\<lambda>j. (?cols ! j,
                        map (\<lambda>j. infer_column (map (\<lambda>rec. if j < length rec then rec ! j else []) ?R))
                          [0..<?n] ! j ! i)) [0..<?n]) [0..<length df])"
      then have i: "i < length df" by simp
      then have ri: "df ! i \<in> set df" by simp
      with len same have li: "length (df ! i) = ?n" and fi: "map fst (df ! i) = ?cols"
        by auto
      have "map (\<lambda>j. (?cols ! j,
                        map (\<lambda>j. infer_column (map (\<lambda>rec. if j < length rec then rec ! j else []) ?R))
                          [0..<?n] ! j ! i)) [0..<?n] = df ! i"
      proof (rule nth_equalityI)
        show "length (map (\<lambda>j. (?cols ! j,
                        map (\<lambda>j. infer_column (map (\<lambda>rec. if j < length rec then rec ! j else []) ?R))
                          [0..<?n] ! j ! i)) [0..<?n]) = length (df ! i)"
          by (simp add: li)
      next
        fix j
        assume "j < length (map (\<lambda>j. (?cols ! j,
                        map (\<lambda>j. infer_column (map (\<lambda>rec. if j < length rec then rec ! j else []) ?R))
                          [0..<?n] ! j ! i)) [0..<?n])"
        then have j: "j < ?n" by simp
        have "?cols ! j = fst (df ! i ! j)"
          using fi j li by (metis nth_map)
        moreover have "map (\<lambda>j. infer_column (map (\<lambda>rec. if j < length rec then rec ! j else []) ?R))
                          [0..<?n] ! j = map (\<lambda>r. snd (r ! j)) df"
          using j column [OF j] by (simp only: nth_map length_upt minus_nat.diff_0 nth_upt add_0)
        ultimately
        show "map (\<lambda>j. (?cols ! j,
                        map (\<lambda>j. infer_column (map (\<lambda>rec. if j < length rec then rec ! j else []) ?R))
                          [0..<?n] ! j ! i)) [0..<?n] ! j = df ! i ! j"
          using j i by (simp only: nth_map length_upt minus_nat.diff_0 nth_upt add_0 prod.collapse)
      qed
      with i show "map (\<lambda>i. map (\<lambda>j. (?cols ! j,
                        map (\<lambda>j. infer_column (map (\<lambda>rec. if j < length rec then rec ! j else []) ?R))
                          [0..<?n] ! j ! i)) [0..<?n]) [0..<length df] ! i = df ! i"
        by simp
    qed
    from ne rows show ?thesis
      by (simp add: read_csv_fields_def Let_def)
  qed
  with csv show ?thesis by (simp add: read_csv_def)
qed


section \<open>Clearing a category\<close>

lemma resolve_path_join_walk:
  assumes "plain b"
  shows "resolve w (path_join a b)
         = (case walk w (start_dir w a) (split_slash a) of
              None \<Rightarrow> None
            | Some q \<Rightarrow> if is_dir w q then Some (q @ [b]) else None)"
proof (cases "a = []")
  case True
  with assms show ?thesis
    by (simp add: resolve_relative_plain start_dir_def walk_def walk_step_def)
next
  case False
  show ?thesis
    unfolding resolve_path_join [OF False assms] by (simp add: resolve_def False)
qed

lemma resolve_entry:
  assumes "plain name" "plain sid" "plain fname"
  shows "resolve w (cache_file_path c name sid fname)
         = (case resolve w (path_join (cache_dir c) name) of
              None \<Rightarrow> None
            | Some d \<Rightarrow> if is_dir w d \<and> is_dir w (d @ [sid]) then Some (d @ [sid, fname])
                        else None)"
proof -
  have ne: "path_join (cache_dir c) name \<noteq> []"
    "path_join (path_join (cache_dir c) name) sid \<noteq> []"
    using assms by (simp_all add: path_join_nonempty plain_def)
  show ?thesis
    using ne assms(2,3)
    by (simp add: cache_file_path_def resolve_path_join split: option.splits)
qed

lemma resolve_fewer_dirs:
  "resolve w' p = Some q \<Longrightarrow> (\<And>t. is_dir w' t \<Longrightarrow> is_dir w t) \<Longrightarrow> cwd w' = cwd w
   \<Longrightarrow> resolve w p = Some q"
  using resolve_more_dirs [of w' p q w] by simp

lemma clear_cache_cwd [simp]: "cwd (snd (clear_cache c name w)) = cwd w"
  by (simp add: clear_cache_def path_exists_def rmtree_def Let_def split: option.splits)

lemma clear_cache_absent:
  "\<not> fst (path_exists (path_join (cache_dir c) name) w) \<Longrightarrow>
   clear_cache c name w = (Inr (), emit (PathExists (path_join (cache_dir c) name)) w)"
  by (simp add: clear_cache_def path_exists_def Let_def)

lemma clear_cache_present:
  assumes "resolve w (path_join (cache_dir c) name) = Some d" "is_dir w d"
  shows "fst (clear_cache c name w) = Inr ()
         \<and> files (snd (clear_cache c name w)) = filter (\<lambda>(f, _). \<not> inside d f) (files w)
         \<and> dirs (snd (clear_cache c name w)) = filter (\<lambda>q. \<not> inside d q) (dirs w)"
  using assms
  by (simp add: clear_cache_def path_exists_def Let_def rmtree_def exists_at_def)

lemma clear_cache_cases:
  "(files (snd (clear_cache c name w)) = files w \<and> dirs (snd (clear_cache c name w)) = dirs w
      \<and> (fst (clear_cache c name w) = Inr ()
           \<longrightarrow> \<not> fst (path_exists (path_join (cache_dir c) name) w)))
   \<or> (\<exists>d. resolve w (path_join (cache_dir c) name) = Some d \<and> is_dir w d)"
  by (auto simp: clear_cache_def path_exists_def Let_def rmtree_def split: option.splits)

lemma is_dir_same_dirs: "dirs w' = dirs w \<Longrightarrow> is_dir w' q = is_dir w q"
  by (simp add: is_dir_def)

lemma is_dir_after_clear:
  assumes "resolve w (path_join (cache_dir c) name) = Some d" "is_dir w d"
  shows "is_dir (snd (clear_cache c name w)) q \<longleftrightarrow> q = [] \<or> (is_dir w q \<and> \<not> inside d q)"
  using clear_cache_present [OF assms] by (auto simp: is_dir_def)

lemma clear_cache_frame:
  assumes "resolve w (path_join (cache_dir c) name) = Some d" "\<not> inside d q"
  shows "map_of (files (snd (clear_cache c name w))) q = map_of (files w) q
         \<and> is_dir (snd (clear_cache c name w)) q = is_dir w q"
  using clear_cache_cases [of c name w]
proof
  assume "files (snd (clear_cache c name w)) = files w \<and> dirs (snd (clear_cache c name w)) = dirs w
      \<and> (fst (clear_cache c name w) = Inr ()
           \<longrightarrow> \<not> fst (path_exists (path_join (cache_dir c) name) w))"
  then show ?thesis by (simp add: is_dir_def)
next
  assume "\<exists>d. resolve w (path_join (cache_dir c) name) = Some d \<and> is_dir w d"
  with assms(1) have d: "is_dir w d" by simp
  from clear_cache_present [OF assms(1) d] is_dir_after_clear [OF assms(1) d, of q] assms(2)
  show ?thesis
    by (auto simp: map_of_filter_keys)
qed

lemma clear_cache_own_subtree:
  assumes "plain name" "resolve w (path_join (cache_dir c) name) = Some d" "is_dir w d"
    and "inside d q"
  shows "map_of (files (snd (clear_cache c name w))) q = None
         \<and> \<not> is_dir (snd (clear_cache c name w)) q"
proof -
  from resolve_category [OF assms(1,2)] obtain r where "d = r @ [name]" by blast
  with assms(4) have "q \<noteq> []" by (auto simp: inside_iff)
  with clear_cache_present [OF assms(2,3)] is_dir_after_clear [OF assms(2,3), of q] assms(4)
  show ?thesis
    by (simp add: map_of_filter_keys)
qed

lemma clear_cache_own_entries:
  assumes plain: "plain name" "plain sid" "plain fname"
    and ok: "fst (clear_cache c name w) = Inr ()"
  shows "fst (load_from_cache L c name sid fname (snd (clear_cache c name w))) = Inr PyNone"
proof -
  let ?p = "path_join (cache_dir c) name"
  let ?w' = "snd (clear_cache c name w)"
  have "\<And>d. resolve ?w' ?p = Some d \<Longrightarrow> \<not> is_dir ?w' d"
    using clear_cache_cases [of c name w]
  proof
    fix d
    assume a: "files ?w' = files w \<and> dirs ?w' = dirs w
      \<and> (fst (clear_cache c name w) = Inr () \<longrightarrow> \<not> fst (path_exists ?p w))"
      and r: "resolve ?w' ?p = Some d"
    from a have "resolve ?w' ?p = resolve w ?p"
      by (intro resolve_same_dirs) simp_all
    with r a ok show "\<not> is_dir ?w' d"
      by (auto simp: path_exists_iff exists_at_def is_dir_def)
  next
    fix d
    assume "\<exists>d. resolve w ?p = Some d \<and> is_dir w d"
      and r: "resolve ?w' ?p = Some d"
    then obtain d0 where d0: "resolve w ?p = Some d0" "is_dir w d0" by blast
    have "resolve w ?p = Some d"
      using r by (rule resolve_fewer_dirs) (auto simp: is_dir_after_clear [OF d0])
    with d0 have "d = d0" by simp
    with clear_cache_own_subtree [OF plain(1) d0, of d0] show "\<not> is_dir ?w' d"
      by simp
  qed
  then have "resolve ?w' (cache_file_path c name sid fname) = None"
    by (auto simp: resolve_entry [OF plain] split: option.splits)
  then show ?thesis by (rule load_from_cache_nowhere)
qed

lemma clear_cache_other_entries:
  assumes plain: "plain name" "plain other" "plain sid" "plain fname"
    and ne: "name \<noteq> other"
    and straight: "''..'' \<notin> set (split_slash (cache_dir c))"
  shows "fst (load_from_cache L c other sid fname (snd (clear_cache c name w)))
         = fst (load_from_cache L c other sid fname w)"
  using clear_cache_cases [of c name w]
proof
  let ?w' = "snd (clear_cache c name w)"
  assume a: "files ?w' = files w \<and> dirs ?w' = dirs w
      \<and> (fst (clear_cache c name w) = Inr ()
           \<longrightarrow> \<not> fst (path_exists (path_join (cache_dir c) name) w))"
  then have "resolve ?w' (cache_file_path c other sid fname)
             = resolve w (cache_file_path c other sid fname)"
    by (intro resolve_same_dirs) simp_all
  with a show ?thesis
    by (intro load_from_cache_same) (simp_all add: is_dir_def)
next
  let ?w' = "snd (clear_cache c name w)"
  let ?cd = "cache_dir c"
  assume "\<exists>d. resolve w (path_join ?cd name) = Some d \<and> is_dir w d"
  then obtain d where d: "resolve w (path_join ?cd name) = Some d" "is_dir w d" by blast
  from d(1) obtain r where
    r: "walk w (start_dir w ?cd) (split_slash ?cd) = Some r" "is_dir w r" "d = r @ [name]"
    by (auto simp: resolve_path_join_walk [OF plain(1)] split: option.splits if_splits)
  note after = is_dir_after_clear [OF d]
  have short: "is_dir ?w' t" if "length t \<le> length r" "is_dir w t" for t
  proof -
    have "\<not> inside d t"
      using that(1) inside_length [of d t] by (auto simp: r(3))
    with that(2) show ?thesis by (simp add: after)
  qed
  have "walk ?w' (start_dir w ?cd) (split_slash ?cd) = Some r"
    using r(1) straight short by (rule walk_preserved)
  moreover have "start_dir ?w' ?cd = start_dir w ?cd"
    by (simp add: start_dir_def)
  moreover have "is_dir ?w' r"
    using r(2) by (intro short) simp
  ultimately have cat': "resolve ?w' (path_join ?cd other) = Some (r @ [other])"
    by (simp add: resolve_path_join_walk [OF plain(2)])
  have cat: "resolve w (path_join ?cd other) = Some (r @ [other])"
    using r(1,2) by (simp add: resolve_path_join_walk [OF plain(2)])
  have out: "\<not> inside d (r @ [other] @ q)" for q
    using ne siblings_disjoint [of name other r "r @ [other] @ q"]
    by (simp add: r(3) inside_iff)
  have same: "is_dir ?w' (r @ [other] @ q) = is_dir w (r @ [other] @ q)" for q
    using out [of q] by (simp add: after)
  have res: "resolve ?w' (cache_file_path c other sid fname)
             = resolve w (cache_file_path c other sid fname)"
    using same [of "[]"] same [of "[sid]"]
    by (simp add: resolve_entry [OF plain(2,3,4)] cat cat')
  show ?thesis
  proof (rule load_from_cache_same [OF res])
    fix q
    assume "resolve w (cache_file_path c other sid fname) = Some q"
    then have q: "q = r @ [other] @ [sid, fname]"
      by (auto simp: resolve_entry [OF plain(2,3,4)] cat split: if_splits)
    have "\<not> inside d q"
      unfolding q by (rule out)
    with clear_cache_frame [OF d(1)]
    show "map_of (files ?w') q = map_of (files w) q \<and> is_dir ?w' q = is_dir w q"
      by blast
  qed
qed


section \<open>The single source branch\<close>

text \<open>
  Claim C1. With one file-format function and no merge type, the result should be the one
  loaded set wrapped as a collection, its elements the records of that set. Line 128 passes
  the list \<^verbatim>\<open>combined_variants\<close> to the wrapper, not the set in it (lines 132 and 134 pass
  a set). The wrapper builds the set of the elements it is given, and the one element of
  the list, a set, is not hashable: the call raises \<^verbatim>\<open>TypeError\<close>. So on a cache miss on
  which the one source file loads (\<open>raw_sets\<close> is what was loaded), the resolution raises
  \<^verbatim>\<open>TypeError\<close> in the world the loading left: no collection is returned and nothing is
  written to the cache. On the example cohort, whose one indel caller yields the records A,
  B and C for sample \<open>s1\<close>, \<open>load_variants\<close> raises it too.
\<close>

theorem single_source_raises:
  assumes "sample_idx < length (sample_ids c)"
    and "sample_idx < length (normal_bam_ids c)"
    and "sample_idx < length (tumor_bam_ids c)"
    and "length file_format_funcs = 1"
    and "load_from_cache L c variant_cache_name (sample_ids c ! sample_idx)
           (variant_type @ ''-'' @ str_of None @ ''-variants.pkl'') w = (Inr PyNone, w1)"
    and "load_combined_variants L c file_format_funcs (sample_ids c ! sample_idx)
           (normal_bam_ids c ! sample_idx) (tumor_bam_ids c ! sample_idx) [] w1
         = (Inr raw_sets, w2)"
  shows "load_single_sample_variants L c sample_idx file_format_funcs variant_type None w
         = (Inl TypeError, w2)"
proof -
  have "length raw_sets = 1"
    using load_combined_variants_length [OF assms(6)] assms(4) by simp
  then have "merge_variants raw_sets None = Inl TypeError"
    by (simp add: merge_variants_def)
  then show ?thesis
    using load_single_sample_variants_miss [OF assms(1-3) assms(5,6)] by simp
qed

theorem single_source_raises_witness:
  "fst (load_combined_variants example_libs example_cohort [mutect] ''s1'' ''n1'' ''t1'' []
          (snd (load_from_cache example_libs example_cohort variant_cache_name ''s1''
                  ''indel-None-variants.pkl'' example_world)))
     = Inr [{''A'', ''B'', ''C''}]
   \<and> fst (load_single_sample_variants example_libs example_cohort 0 [mutect] ''indel'' None
            example_world) = Inl TypeError
   \<and> files (snd (load_single_sample_variants example_libs example_cohort 0 [mutect] ''indel''
                   None example_world)) = files example_world
   \<and> fst (load_variants example_libs example_cohort ''indel'' None example_world)
       = Inl TypeError"
proof -
  let ?look = "load_from_cache example_libs example_cohort variant_cache_name
                 (sample_ids example_cohort ! 0)
                 (''indel'' @ ''-'' @ str_of None @ ''-variants.pkl'') example_world"
  let ?load = "load_combined_variants example_libs example_cohort [mutect]
                 (sample_ids example_cohort ! 0) (normal_bam_ids example_cohort ! 0)
                 (tumor_bam_ids example_cohort ! 0) [] (snd ?look)"
  have idx: "0 < length (sample_ids example_cohort)"
    "0 < length (normal_bam_ids example_cohort)"
    "0 < length (tumor_bam_ids example_cohort)"
    by (simp_all add: example_cohort_def)
  have one: "length [mutect] = 1" by simp
  have miss: "fst ?look = Inr PyNone" by code_simp
  have load: "fst ?load = Inr [{''A'', ''B'', ''C''}]" by code_simp
  have run: "load_single_sample_variants example_libs example_cohort 0 [mutect] ''indel'' None
               example_world = (Inl TypeError, snd ?load)"
    by (rule single_source_raises [OF idx one, where ?w1.0 = "snd ?look"
          and raw_sets = "[{''A'', ''B'', ''C''}]"])
      (use miss load in \<open>simp_all add: prod_eq_iff\<close>)
  have a: "fst (load_combined_variants example_libs example_cohort [mutect] ''s1'' ''n1'' ''t1'' []
          (snd (load_from_cache example_libs example_cohort variant_cache_name ''s1''
                  ''indel-None-variants.pkl'' example_world)))
     = Inr [{''A'', ''B'', ''C''}]"
    by code_simp
  have b: "files (snd ?load) = files example_world" by code_simp
  have c: "fst (load_variants example_libs example_cohort ''indel'' None example_world)
       = Inl TypeError"
    by code_simp
  from run a b c show ?thesis by simp
qed


section \<open>Merging two or more sources\<close>

text \<open>
  Claim C2. For a sample with two or more file-format functions, resolving with merge type
  union returns the union of all raw-loaded sets and with intersection their intersection.
  The setting is the one in which sets are loaded at all: no cached entry answers the
  lookup, every source file loads (\<open>raw_sets\<close> are the sets loaded, in order) and the
  write-back to the cache returns. For the raw sets {A,B,C} and {B,C,D} of the example
  cohort the results are {A,B,C,D} and {B,C}.
\<close>

theorem two_or_more_sources_merge:
  assumes "sample_idx < length (sample_ids c)"
    and "sample_idx < length (normal_bam_ids c)"
    and "sample_idx < length (tumor_bam_ids c)"
    and "2 \<le> length file_format_funcs"
    and "m = ''union'' \<or> m = ''intersection''"
    and "load_from_cache L c variant_cache_name (sample_ids c ! sample_idx)
           (variant_type @ ''-'' @ m @ ''-variants.pkl'') w = (Inr PyNone, w1)"
    and "load_combined_variants L c file_format_funcs (sample_ids c ! sample_idx)
           (normal_bam_ids c ! sample_idx) (tumor_bam_ids c ! sample_idx) [] w1
         = (Inr raw_sets, w2)"
    and "merged = (if m = ''union'' then \<Union> (set raw_sets) else \<Inter> (set raw_sets))"
    and "save_to_cache L c (VariantCollection merged) variant_cache_name
           (sample_ids c ! sample_idx) (variant_type @ ''-'' @ m @ ''-variants.pkl'') w2
         = (Inr (), w3)"
  shows "load_single_sample_variants L c sample_idx file_format_funcs variant_type (Some m) w
         = (Inr (VariantCollection merged), w3)"
proof -
  have len: "2 \<le> length raw_sets"
    using load_combined_variants_length [OF assms(7)] assms(4) by simp
  have "merge_variants raw_sets (Some m) = Inr (VariantCollection merged)"
    using assms(5,8) len
    by (auto simp: merge_variants_union merge_variants_intersection)
  then show ?thesis
    using load_single_sample_variants_miss [OF assms(1-3), of L variant_type "Some m" w w1
        file_format_funcs raw_sets w2] assms(6,7,9)
    by (simp add: str_of_def)
qed

theorem two_or_more_sources_merge_witness:
  "fst (load_single_sample_variants example_libs example_cohort 0 [mutect, strelka] ''snv''
          (Some ''union'') example_world)
     = Inr (VariantCollection {''A'', ''B'', ''C'', ''D''})
   \<and> fst (load_single_sample_variants example_libs example_cohort 0 [mutect, strelka] ''snv''
          (Some ''intersection'') example_world)
     = Inr (VariantCollection {''B'', ''C''})"
proof -
  let ?run = "\<lambda>m. load_single_sample_variants example_libs example_cohort 0
                      [mutect, strelka] ''snv'' (Some m) example_world"
  let ?look = "\<lambda>m. load_from_cache example_libs example_cohort variant_cache_name
                       (sample_ids example_cohort ! 0) (''snv'' @ ''-'' @ m @ ''-variants.pkl'')
                       example_world"
  let ?load = "\<lambda>m. load_combined_variants example_libs example_cohort [mutect, strelka]
                       (sample_ids example_cohort ! 0) (normal_bam_ids example_cohort ! 0)
                       (tumor_bam_ids example_cohort ! 0) [] (snd (?look m))"
  let ?save = "\<lambda>m s. save_to_cache example_libs example_cohort (VariantCollection s)
                         variant_cache_name (sample_ids example_cohort ! 0)
                         (''snv'' @ ''-'' @ m @ ''-variants.pkl'') (snd (?load m))"
  let ?raw = "[{''A'', ''B'', ''C''}, {''B'', ''C'', ''D''}] :: string set list"
  have idx: "0 < length (sample_ids example_cohort)"
    "0 < length (normal_bam_ids example_cohort)"
    "0 < length (tumor_bam_ids example_cohort)"
    by (simp_all add: example_cohort_def)
  have two: "2 \<le> length [mutect, strelka]" by simp
  have u: "\<Union> (set ?raw) = {''A'', ''B'', ''C'', ''D''}" by auto
  have i: "\<Inter> (set ?raw) = {''B'', ''C''}" by auto
  have miss_u: "fst (?look ''union'') = Inr PyNone" by code_simp
  have miss_i: "fst (?look ''intersection'') = Inr PyNone" by code_simp
  have load_u: "fst (?load ''union'') = Inr ?raw" by code_simp
  have load_i: "fst (?load ''intersection'') = Inr ?raw" by code_simp
  have save_u: "fst (?save ''union'' {''A'', ''B'', ''C'', ''D''}) = Inr ()" by code_simp
  have save_i: "fst (?save ''intersection'' {''B'', ''C''}) = Inr ()" by code_simp
  have "?run ''union''
        = (Inr (VariantCollection {''A'', ''B'', ''C'', ''D''}),
           snd (?save ''union'' {''A'', ''B'', ''C'', ''D''}))"
    by (rule two_or_more_sources_merge [OF idx two, where m = "''union''"
          and ?w1.0 = "snd (?look ''union'')" and ?w2.0 = "snd (?load ''union'')"
          and raw_sets = ?raw])
      (use miss_u load_u save_u u in \<open>simp_all add: prod_eq_iff\<close>)
  moreover have "?run ''intersection''
        = (Inr (VariantCollection {''B'', ''C''}),
           snd (?save ''intersection'' {''B'', ''C''}))"
    by (rule two_or_more_sources_merge [OF idx two, where m = "''intersection''"
          and ?w1.0 = "snd (?look ''intersection'')" and ?w2.0 = "snd (?load ''intersection'')"
          and raw_sets = ?raw])
      (use miss_i load_i save_i i in \<open>simp_all add: prod_eq_iff\<close>)
  ultimately show ?thesis by simp
qed


section \<open>Unknown variant types\<close>

text \<open>
  Claim C3. A variant type outside snv and indel should fail with an assertion on every
  path that resolves variants. \<open>load_variants\<close> asserts it (line 95, lemma
  \<open>load_variants_unknown_variant_type\<close>). The neoantigen path has no such assertion: with
  HLA alleles configured and no cached table for the first sample, the lookup of the
  format functions at line 163 raises \<^verbatim>\<open>KeyError\<close>. (And a table cached under such a key
  is returned without any failure, lemma \<open>neoantigens_unknown_variant_type_cached\<close>.)
\<close>

theorem neoantigens_unknown_variant_type:
  assumes "hla_alleles c \<noteq> None"
    and "sample_ids c = sample_id # others"
    and "variant_type \<noteq> ''snv''" and "variant_type \<noteq> ''indel''"
    and "load_from_cache L c neoantigen_cache_name sample_id
           (variant_type @ ''-'' @ str_of merge_type @ ''-neoantigens.csv'') w = (Inr PyNone, w1)"
  shows "load_neoantigens L c variant_type merge_type args w = (Inl KeyError, w1)"
  using assms
  by (simp add: load_neoantigens_def load_single_sample_neoantigens_def index_def
      getitem_unknown_variant_type)

theorem neoantigens_unknown_variant_type_witness:
  "fst (load_neoantigens example_libs example_cohort ''foo'' (Some ''union'')
          example_args example_world) = Inl KeyError"
proof -
  have 1: "hla_alleles example_cohort \<noteq> None"
    by (simp add: example_cohort_def)
  have 2: "sample_ids example_cohort = ''s1'' # [''s2'', ''s3'']"
    by (simp add: example_cohort_def)
  have 3: "load_from_cache example_libs example_cohort neoantigen_cache_name ''s1''
             (''foo'' @ ''-'' @ str_of (Some ''union'') @ ''-neoantigens.csv'') example_world
           = (Inr PyNone,
              emit (PathExists ''cache/cached-neoantigens/s1/foo-union-neoantigens.csv'')
                example_world)"
    by code_simp
  show ?thesis
    using neoantigens_unknown_variant_type [OF 1 2 _ _ 3, of example_args] by simp
qed


section \<open>A merge type that does not fit the number of sources\<close>

text \<open>
  Claim C4, as stated: on a cache miss, resolution fails with an assertion whenever the
  merge type does not match the number of format functions. The assertions of lines 127
  and 130 come after the loop that loads the source files, so a missing source file raises
  \<^verbatim>\<open>IOError\<close> first: sample \<open>s2\<close> of the example cohort, one format function, merge type
  union, nothing cached.
\<close>

theorem mismatch_with_missing_file:
  "fst (load_from_cache example_libs example_cohort variant_cache_name ''s2''
          ''indel-union-variants.pkl'' example_world) = Inr PyNone
   \<and> length [mutect] = 1 \<and> Some ''union'' \<noteq> (None :: string option)
   \<and> fst (load_single_sample_variants example_libs example_cohort 1 [mutect] ''indel''
            (Some ''union'') example_world) = Inl IOError
   \<and> fst (load_single_sample_variants example_libs example_cohort 1 [mutect] ''indel''
            (Some ''union'') example_world) \<noteq> Inl AssertionError"
proof -
  have 1: "fst (load_from_cache example_libs example_cohort variant_cache_name ''s2''
          ''indel-union-variants.pkl'' example_world) = Inr PyNone"
    by code_simp
  have 2: "fst (load_single_sample_variants example_libs example_cohort 1 [mutect] ''indel''
            (Some ''union'') example_world) = Inl IOError"
    by code_simp
  from 1 2 show ?thesis by simp
qed

text \<open>
  Claim C4, amended: on a cache miss on which every configured source file loads,
  resolution fails with an assertion whenever the merge type does not match the number of
  format functions (one function and a merge type other than \<^verbatim>\<open>None\<close>; two or more
  functions and a merge type other than union and intersection). Nothing is written to the
  cache.
\<close>

theorem merge_type_mismatch_fails:
  assumes "sample_idx < length (sample_ids c)"
    and "sample_idx < length (normal_bam_ids c)"
    and "sample_idx < length (tumor_bam_ids c)"
    and "(length file_format_funcs = 1 \<and> merge_type \<noteq> None)
         \<or> (2 \<le> length file_format_funcs
             \<and> merge_type \<noteq> Some ''union'' \<and> merge_type \<noteq> Some ''intersection'')"
    and "load_from_cache L c variant_cache_name (sample_ids c ! sample_idx)
           (variant_type @ ''-'' @ str_of merge_type @ ''-variants.pkl'') w = (Inr PyNone, w1)"
    and "load_combined_variants L c file_format_funcs (sample_ids c ! sample_idx)
           (normal_bam_ids c ! sample_idx) (tumor_bam_ids c ! sample_idx) [] w1
         = (Inr raw_sets, w2)"
  shows "load_single_sample_variants L c sample_idx file_format_funcs variant_type merge_type w
         = (Inl AssertionError, w2)"
proof -
  have "length raw_sets = length file_format_funcs"
    using load_combined_variants_length [OF assms(6)] by simp
  with assms(4) have "merge_variants raw_sets merge_type = Inl AssertionError"
    by (intro merge_variants_mismatch) simp
  then show ?thesis
    using load_single_sample_variants_miss [OF assms(1-3) assms(5,6)] by simp
qed

theorem merge_type_mismatch_fails_witness:
  "fst (load_single_sample_variants example_libs example_cohort 0 [mutect] ''indel''
          (Some ''union'') example_world) = Inl AssertionError
   \<and> fst (load_single_sample_variants example_libs example_cohort 0 [mutect, strelka] ''snv''
          None example_world) = Inl AssertionError"
proof -
  let ?look = "\<lambda>vt mt. load_from_cache example_libs example_cohort variant_cache_name
                       (sample_ids example_cohort ! 0)
                       (vt @ ''-'' @ str_of mt @ ''-variants.pkl'') example_world"
  let ?load = "\<lambda>fs vt mt. load_combined_variants example_libs example_cohort fs
                       (sample_ids example_cohort ! 0) (normal_bam_ids example_cohort ! 0)
                       (tumor_bam_ids example_cohort ! 0) [] (snd (?look vt mt))"
  have idx: "0 < length (sample_ids example_cohort)"
    "0 < length (normal_bam_ids example_cohort)"
    "0 < length (tumor_bam_ids example_cohort)"
    by (simp_all add: example_cohort_def)
  have m1: "fst (?look ''indel'' (Some ''union'')) = Inr PyNone" by code_simp
  have m2: "fst (?look ''snv'' None) = Inr PyNone" by code_simp
  have l1: "fst (?load [mutect] ''indel'' (Some ''union'')) = Inr [{''A'', ''B'', ''C''}]"
    by code_simp
  have l2: "fst (?load [mutect, strelka] ''snv'' None)
            = Inr [{''A'', ''B'', ''C''}, {''B'', ''C'', ''D''}]"
    by code_simp
  have "load_single_sample_variants example_libs example_cohort 0 [mutect] ''indel''
          (Some ''union'') example_world
        = (Inl AssertionError, snd (?load [mutect] ''indel'' (Some ''union'')))"
    by (rule merge_type_mismatch_fails [OF idx, where ?w1.0 = "snd (?look ''indel'' (Some ''union''))"
          and raw_sets = "[{''A'', ''B'', ''C''}]"])
      (use m1 l1 in \<open>simp_all add: prod_eq_iff\<close>)
  moreover have "load_single_sample_variants example_libs example_cohort 0 [mutect, strelka]
          ''snv'' None example_world
        = (Inl AssertionError, snd (?load [mutect, strelka] ''snv'' None))"
    by (rule merge_type_mismatch_fails [OF idx, where ?w1.0 = "snd (?look ''snv'' None)"
          and raw_sets = "[{''A'', ''B'', ''C''}, {''B'', ''C'', ''D''}]"])
      (use m2 l2 in \<open>simp_all add: prod_eq_iff\<close>)
  ultimately show ?thesis by simp
qed


section \<open>Skipping samples whose files are missing\<close>

text \<open>
  Claim C5. \<open>load_variants\<close> tolerates the failure of single samples. In four parts, for
  a variant type of the closed set. (1) When the samples before index \<open>i\<close> have gone through
  and the call for sample \<open>i\<close> raises \<^verbatim>\<open>IOError\<close>, the failure is caught, the sample is
  reported with a printed line, and the loop goes on with the remaining samples and the
  mapping as it was. (2) \<open>load_variants\<close> never raises \<^verbatim>\<open>IOError\<close>. (3) The keys of the
  returned mapping are exactly the samples whose call returned a value, each call taken in
  the world its predecessors left. (4) Such a sample is mapped to the value its call
  returned, unless a later sample has the same id. A source file that is absent
  makes the sample's call raise \<^verbatim>\<open>IOError\<close> (lemma \<open>missing_source_file_raises\<close>). In
  the example cohort sample \<open>s2\<close> has no files: the mapping has samples \<open>s1\<close> and \<open>s3\<close>
  only.
\<close>

theorem load_variants_skips_missing_samples:
  assumes "variant_type = ''snv'' \<or> variant_type = ''indel''"
  shows "(\<forall>pre i sid post acc w1 funcs w2.
            enumerate 0 (sample_ids c) = pre @ (i, sid) # post
          \<and> load_variants_loop L c variant_type merge_type pre [] w = (Inr acc, w1)
          \<and> getitem (variant_type_to_format_funcs c) variant_type = Inr funcs
          \<and> load_single_sample_variants L c i funcs variant_type merge_type w1 = (Inl IOError, w2)
          \<longrightarrow> load_variants L c variant_type merge_type w
                = load_variants_loop L c variant_type merge_type post acc
                    (emit (Print (''Variants did not exist for '' @ sid)) w2))
       \<and> fst (load_variants L c variant_type merge_type w) \<noteq> Inl IOError
       \<and> (\<forall>m w'. load_variants L c variant_type merge_type w = (Inr m, w') \<longrightarrow>
            fst ` set m =
              {sid. \<exists>pre i post acc w1 funcs v w2.
                 enumerate 0 (sample_ids c) = pre @ (i, sid) # post
                 \<and> load_variants_loop L c variant_type merge_type pre [] w = (Inr acc, w1)
                 \<and> getitem (variant_type_to_format_funcs c) variant_type = Inr funcs
                 \<and> load_single_sample_variants L c i funcs variant_type merge_type w1
                     = (Inr v, w2)})
       \<and> (\<forall>m w' pre i sid post acc w1 funcs v w2.
            load_variants L c variant_type merge_type w = (Inr m, w')
          \<and> enumerate 0 (sample_ids c) = pre @ (i, sid) # post
          \<and> load_variants_loop L c variant_type merge_type pre [] w = (Inr acc, w1)
          \<and> getitem (variant_type_to_format_funcs c) variant_type = Inr funcs
          \<and> load_single_sample_variants L c i funcs variant_type merge_type w1 = (Inr v, w2)
          \<and> sid \<notin> snd ` set post
          \<longrightarrow> map_of m sid = Some v)"
proof -
  let ?en = "enumerate 0 (sample_ids c)"
  have lv: "load_variants L c variant_type merge_type w
            = load_variants_loop L c variant_type merge_type ?en [] w"
    using assms by (auto simp: load_variants_def)
  show ?thesis
  proof (intro conjI allI impI)
    fix pre i sid post acc w1 funcs w2
    assume "?en = pre @ (i, sid) # post
          \<and> load_variants_loop L c variant_type merge_type pre [] w = (Inr acc, w1)
          \<and> getitem (variant_type_to_format_funcs c) variant_type = Inr funcs
          \<and> load_single_sample_variants L c i funcs variant_type merge_type w1 = (Inl IOError, w2)"
    then show "load_variants L c variant_type merge_type w
                = load_variants_loop L c variant_type merge_type post acc
                    (emit (Print (''Variants did not exist for '' @ sid)) w2)"
      by (simp add: lv load_variants_loop_append)
  next
    show "fst (load_variants L c variant_type merge_type w) \<noteq> Inl IOError"
      unfolding lv by (rule load_variants_loop_never_IOError)
  next
    fix m w'
    assume "load_variants L c variant_type merge_type w = (Inr m, w')"
    then have "load_variants_loop L c variant_type merge_type ?en [] w = (Inr m, w')"
      by (simp add: lv)
    from load_variants_loop_keys [OF this]
    show "fst ` set m =
              {sid. \<exists>pre i post acc w1 funcs v w2.
                 ?en = pre @ (i, sid) # post
                 \<and> load_variants_loop L c variant_type merge_type pre [] w = (Inr acc, w1)
                 \<and> getitem (variant_type_to_format_funcs c) variant_type = Inr funcs
                 \<and> load_single_sample_variants L c i funcs variant_type merge_type w1
                     = (Inr v, w2)}"
      by simp
  next
    fix m w' pre i sid post acc w1 funcs v w2
    assume a: "load_variants L c variant_type merge_type w = (Inr m, w')
          \<and> ?en = pre @ (i, sid) # post
          \<and> load_variants_loop L c variant_type merge_type pre [] w = (Inr acc, w1)
          \<and> getitem (variant_type_to_format_funcs c) variant_type = Inr funcs
          \<and> load_single_sample_variants L c i funcs variant_type merge_type w1 = (Inr v, w2)
          \<and> sid \<notin> snd ` set post"
    then have "load_variants_loop L c variant_type merge_type (pre @ (i, sid) # post) [] w
               = (Inr m, w')"
      by (elim conjE) (simp add: lv)
    with a have "load_variants_loop L c variant_type merge_type post (AList.update sid v acc) w2
               = (Inr m, w')"
      by (simp add: load_variants_loop_append)
    from load_variants_loop_preserves [OF this] a
    show "map_of m sid = Some v"
      by (simp add: update_conv')
  qed
qed

theorem load_variants_skips_missing_samples_witness:
  "fst (load_variants example_libs example_cohort ''snv'' (Some ''union'') example_world)
     = Inr [(''s1'', VariantCollection {''A'', ''B'', ''C'', ''D''}),
            (''s3'', VariantCollection {''A'', ''B''})]
   \<and> fst (load_single_sample_variants example_libs example_cohort 1 [mutect, strelka] ''snv''
            (Some ''union'')
            (snd (load_variants_loop example_libs example_cohort ''snv'' (Some ''union'')
                    [(0, ''s1'')] [] example_world)))
       = Inl IOError
   \<and> Print ''Variants did not exist for s2''
       \<in> set (trace (snd (load_variants example_libs example_cohort ''snv'' (Some ''union'')
                              example_world)))"
proof -
  let ?pre = "load_variants_loop example_libs example_cohort ''snv'' (Some ''union'')
                [(0, ''s1'')] [] example_world"
  let ?one = "load_single_sample_variants example_libs example_cohort 1 [mutect, strelka] ''snv''
                (Some ''union'') (snd ?pre)"
  let ?acc = "[(''s1'', VariantCollection {''A'', ''B'', ''C'', ''D''})]
                :: (string \<times> string pyobj) list"
  let ?rest = "load_variants_loop example_libs example_cohort ''snv'' (Some ''union'')
                 [(2, ''s3'')] ?acc (emit (Print (''Variants did not exist for '' @ ''s2''))
                                      (snd ?one))"
  have vt: "''snv'' = ''snv'' \<or> ''snv'' = ''indel''" by simp
  have en: "enumerate 0 (sample_ids example_cohort) = [(0, ''s1'')] @ (1, ''s2'') # [(2, ''s3'')]"
    by (simp add: example_cohort_def)
  have funcs: "getitem (variant_type_to_format_funcs example_cohort) ''snv''
               = Inr [mutect, strelka]"
    by (simp add: getitem_def variant_type_to_format_funcs_def example_cohort_def)
  have pre: "fst ?pre = Inr ?acc" by code_simp
  have one: "fst ?one = Inl IOError" by code_simp
  note skip = load_variants_skips_missing_samples [OF vt, of example_cohort example_libs
      "Some ''union''" example_world, THEN conjunct1, rule_format]
  have "load_variants example_libs example_cohort ''snv'' (Some ''union'') example_world = ?rest"
    by (rule skip [of "[(0, ''s1'')]" 1 "''s2''" "[(2, ''s3'')]" ?acc "snd ?pre"
          "[mutect, strelka]" "snd ?one"])
      (use en funcs pre one in \<open>simp add: prod_eq_iff\<close>)
  moreover have "fst ?rest
     = Inr [(''s1'', VariantCollection {''A'', ''B'', ''C'', ''D''}),
            (''s3'', VariantCollection {''A'', ''B''})]"
    by code_simp
  moreover have "Print ''Variants did not exist for s2'' \<in> set (trace (snd ?rest))"
    by code_simp
  ultimately show ?thesis using one by simp
qed


section \<open>No isolation on the neoantigen path\<close>




section \<open>A cache hit comes first\<close>

text \<open>
  Claim C7. The cache lookup precedes every validation and every source-file read. With
  caching on and an entry under \<^verbatim>\<open><variant_type>-<merge_type>-variants.pkl\<close> (the path
  leads to a file) that unpickles to an object other than \<^verbatim>\<open>None\<close>, that object is
  returned as it is, whatever the merge type and the format functions are; the only events
  are the existence test and the read of the entry, so no format function is called and no
  source file is read.
\<close>

theorem cache_hit_returns_cached:
  assumes "cache_results c"
    and "sample_idx < length (sample_ids c)"
    and "sample_idx < length (normal_bam_ids c)"
    and "sample_idx < length (tumor_bam_ids c)"
    and "p = cache_file_path c variant_cache_name (sample_ids c ! sample_idx)
               (variant_type @ ''-'' @ str_of merge_type @ ''-variants.pkl'')"
    and "resolve w p = Some q"
    and "map_of (files w) q = Some content"
    and "pickle_load L content = Inr cached"
    and "cached \<noteq> PyNone"
  shows "load_single_sample_variants L c sample_idx file_format_funcs variant_type merge_type w
         = (Inr cached, emit (ReadFile p) (emit (PathExists p) w))"
proof -
  have ext: "splitext_ext p = ''.pkl''"
    unfolding assms(5)
    using variants_file_ext [of c variant_cache_name "sample_ids c ! sample_idx"
        "variant_type @ ''-'' @ str_of merge_type"]
    by simp
  have "load_from_cache L c variant_cache_name (sample_ids c ! sample_idx)
          (variant_type @ ''-'' @ str_of merge_type @ ''-variants.pkl'') w
        = (Inr cached, emit (ReadFile p) (emit (PathExists p) w))"
    using load_from_cache_hit [OF assms(1), of w variant_cache_name "sample_ids c ! sample_idx"
        "variant_type @ ''-'' @ str_of merge_type @ ''-variants.pkl''" q content L]
      assms(5-8) ext
    by simp
  then show ?thesis
    using assms(2-4,9)
    by (simp add: load_single_sample_variants_def index_def)
qed

theorem cache_hit_returns_cached_witness:
  "fst (load_single_sample_variants example_libs example_cohort 0 [mutect] ''snv''
          (Some ''union'') example_cached_world)
     = Inr (VariantCollection {''Q''})
   \<and> trace (snd (load_single_sample_variants example_libs example_cohort 0 [mutect] ''snv''
          (Some ''union'') example_cached_world))
     = [PathExists ''cache/cached-variants/s1/snv-union-variants.pkl'',
        ReadFile ''cache/cached-variants/s1/snv-union-variants.pkl'']
   \<and> fst (load_single_sample_variants example_libs example_cohort 0 [mutect] ''snv''
          (Some ''union'') example_world)
     = Inl AssertionError"
proof -
  let ?p = "''cache/cached-variants/s1/snv-union-variants.pkl''"
  let ?q = "[''work'', ''cache'', ''cached-variants'', ''s1'', ''snv-union-variants.pkl'']"
  have 1: "cache_results example_cohort"
    and 2: "0 < length (sample_ids example_cohort)"
    and 3: "0 < length (normal_bam_ids example_cohort)"
    and 4: "0 < length (tumor_bam_ids example_cohort)"
    by (simp_all add: example_cohort_def)
  have 5: "?p = cache_file_path example_cohort variant_cache_name (sample_ids example_cohort ! 0)
               (''snv'' @ ''-'' @ str_of (Some ''union'') @ ''-variants.pkl'')"
    by code_simp
  have 6: "resolve example_cached_world ?p = Some ?q"
    by code_simp
  have 7: "map_of (files example_cached_world) ?q = Some (Pickle (VariantCollection {''Q''}))"
    by code_simp
  have 8: "pickle_load example_libs (Pickle (VariantCollection {''Q''}))
           = Inr (VariantCollection {''Q''})"
    by (simp add: pickle_load_def)
  have 9: "fst (load_single_sample_variants example_libs example_cohort 0 [mutect] ''snv''
          (Some ''union'') example_world) = Inl AssertionError"
    by code_simp
  have 10: "trace example_cached_world = []"
    by (simp add: example_cached_world_def)
  show ?thesis
    using cache_hit_returns_cached [OF 1 2 3 4 5 6 7 8, of "[mutect]"] 9 10
    by simp
qed


section \<open>The HLA precondition\<close>

text \<open>
  Claim C8. On a cohort constructed without HLA alleles, \<open>load_neoantigens\<close> fails with an
  assertion before any per-sample work and before any file I/O: the world comes back as it
  was, its trace included.
\<close>

theorem load_neoantigens_without_hla:
  "hla_alleles c = None \<Longrightarrow>
   load_neoantigens L c variant_type merge_type args w = (Inl AssertionError, w)"
  by (simp add: load_neoantigens_def)

theorem load_neoantigens_without_hla_witness:
  "hla_alleles (example_cohort\<lparr>hla_alleles := None\<rparr>) = None \<and>
   load_neoantigens example_libs (example_cohort\<lparr>hla_alleles := None\<rparr>)
     ''snv'' (Some ''union'') example_args example_world
   = (Inl AssertionError, example_world) \<and>
   trace example_world = []"
  using load_neoantigens_without_hla
    [of "example_cohort\<lparr>hla_alleles := None\<rparr>" example_libs
        "''snv''" "Some ''union''" example_args example_world]
  by (simp add: example_world_def)


section \<open>The cache round trip\<close>





section \<open>Clearing one category\<close>

text \<open>
  Claim C10, as stated: clearing one cache category deletes only that category's subtree
  and leaves every entry of the other category unchanged. A sample id goes into the path
  of an entry as it is written. The entry of the neoantigen category saved for the sample
  id \<^verbatim>\<open>../cached-variants/s1\<close> lies in the subtree of the variant category: the load finds
  it after the save, and finds nothing once the variant cache is cleared.
\<close>

theorem sample_id_reaches_other_category:
  "fst (save_to_cache example_libs example_cohort (DataFrame example_table)
          neoantigen_cache_name ''../cached-variants/s1'' ''snv-union-neoantigens.csv''
          example_cached_world) = Inr ()
   \<and> fst (load_from_cache example_libs example_cohort
            neoantigen_cache_name ''../cached-variants/s1'' ''snv-union-neoantigens.csv''
            (snd (save_to_cache example_libs example_cohort (DataFrame example_table)
                    neoantigen_cache_name ''../cached-variants/s1''
                    ''snv-union-neoantigens.csv'' example_cached_world)))
       = Inr (DataFrame example_table)
   \<and> fst (clear_variant_cache example_cohort
            (snd (save_to_cache example_libs example_cohort (DataFrame example_table)
                    neoantigen_cache_name ''../cached-variants/s1''
                    ''snv-union-neoantigens.csv'' example_cached_world))) = Inr ()
   \<and> fst (load_from_cache example_libs example_cohort
            neoantigen_cache_name ''../cached-variants/s1'' ''snv-union-neoantigens.csv''
            (snd (clear_variant_cache example_cohort
                    (snd (save_to_cache example_libs example_cohort (DataFrame example_table)
                            neoantigen_cache_name ''../cached-variants/s1''
                            ''snv-union-neoantigens.csv'' example_cached_world)))))
       = Inr PyNone"
proof -
  let ?w1 = "snd (save_to_cache example_libs example_cohort (DataFrame example_table)
                    neoantigen_cache_name ''../cached-variants/s1''
                    ''snv-union-neoantigens.csv'' example_cached_world)"
  have 1: "fst (save_to_cache example_libs example_cohort (DataFrame example_table)
          neoantigen_cache_name ''../cached-variants/s1'' ''snv-union-neoantigens.csv''
          example_cached_world) = Inr ()"
    by code_simp
  have 2: "fst (load_from_cache example_libs example_cohort
            neoantigen_cache_name ''../cached-variants/s1'' ''snv-union-neoantigens.csv'' ?w1)
       = Inr (DataFrame example_table)"
    by code_simp
  have 3: "fst (clear_variant_cache example_cohort ?w1) = Inr ()"
    by code_simp
  have 4: "fst (load_from_cache example_libs example_cohort
            neoantigen_cache_name ''../cached-variants/s1'' ''snv-union-neoantigens.csv''
            (snd (clear_variant_cache example_cohort ?w1))) = Inr PyNone"
    by code_simp
  from 1 2 3 4 show ?thesis by simp
qed

text \<open>
  Claim C10, amended. Let \<open>clear\<close> be the clearing of one category, \<open>name\<close> its directory
  name and \<open>other\<close> that of the other category. (1) When the category's path leads to a
  directory, the clear returns and nothing is left in that subtree, neither file nor
  directory. (2) Whatever lies outside the subtree keeps its file and directory state.
  (3) When nothing exists at the category's path the clear returns normally, and only
  records the existence test. (4) After a clear that returned, no entry of the cleared
  category is found, for sample ids and file names that are plain names. (5) The load of an
  entry of the other category returns what it returned before, for sample ids and file
  names that are plain names and a cache directory written without \<^verbatim>\<open>..\<close>.
\<close>

theorem clear_cache_isolation:
  assumes "(clear = clear_variant_cache c \<and> name = variant_cache_name
              \<and> other = neoantigen_cache_name)
         \<or> (clear = clear_neoantigen_cache c \<and> name = neoantigen_cache_name
              \<and> other = variant_cache_name)"
  shows "(\<forall>d. resolve w (path_join (cache_dir c) name) = Some d \<and> is_dir w d \<longrightarrow>
            fst (clear w) = Inr ()
          \<and> (\<forall>q. inside d q \<longrightarrow>
                 map_of (files (snd (clear w))) q = None \<and> \<not> is_dir (snd (clear w)) q))
       \<and> (\<forall>d q. resolve w (path_join (cache_dir c) name) = Some d \<and> \<not> inside d q \<longrightarrow>
            map_of (files (snd (clear w))) q = map_of (files w) q
          \<and> is_dir (snd (clear w)) q = is_dir w q)
       \<and> (\<not> fst (path_exists (path_join (cache_dir c) name) w) \<longrightarrow>
            clear w = (Inr (), emit (PathExists (path_join (cache_dir c) name)) w))
       \<and> (\<forall>L sid fname. plain sid \<and> plain fname \<and> fst (clear w) = Inr () \<longrightarrow>
            fst (load_from_cache L c name sid fname (snd (clear w))) = Inr PyNone)
       \<and> (\<forall>L sid fname. plain sid \<and> plain fname
              \<and> ''..'' \<notin> set (split_slash (cache_dir c)) \<longrightarrow>
            fst (load_from_cache L c other sid fname (snd (clear w)))
              = fst (load_from_cache L c other sid fname w))"
proof -
  from assms have clear: "clear = clear_cache c name"
    by (auto simp: clear_variant_cache_def clear_neoantigen_cache_def)
  from assms have names: "plain name" "plain other" "name \<noteq> other"
    using plain_variant_cache_name plain_neoantigen_cache_name categories_differ by auto
  show ?thesis
    unfolding clear
  proof (intro conjI allI impI)
    fix d
    assume "resolve w (path_join (cache_dir c) name) = Some d \<and> is_dir w d"
    then show "fst (clear_cache c name w) = Inr ()"
      using clear_cache_present by blast
  next
    fix d q
    assume "resolve w (path_join (cache_dir c) name) = Some d \<and> is_dir w d" "inside d q"
    then show "map_of (files (snd (clear_cache c name w))) q = None"
      and "\<not> is_dir (snd (clear_cache c name w)) q"
      using clear_cache_own_subtree [OF names(1)] by blast+
  next
    fix d q
    assume "resolve w (path_join (cache_dir c) name) = Some d \<and> \<not> inside d q"
    then show "map_of (files (snd (clear_cache c name w))) q = map_of (files w) q"
      and "is_dir (snd (clear_cache c name w)) q = is_dir w q"
      using clear_cache_frame by blast+
  next
    assume "\<not> fst (path_exists (path_join (cache_dir c) name) w)"
    then show "clear_cache c name w
               = (Inr (), emit (PathExists (path_join (cache_dir c) name)) w)"
      by (rule clear_cache_absent)
  next
    fix L :: "'a libs" and sid fname
    assume "plain sid \<and> plain fname \<and> fst (clear_cache c name w) = Inr ()"
    then show "fst (load_from_cache L c name sid fname (snd (clear_cache c name w)))
               = Inr PyNone"
      using clear_cache_own_entries [OF names(1)] by blast
  next
    fix L :: "'a libs" and sid fname
    assume "plain sid \<and> plain fname \<and> ''..'' \<notin> set (split_slash (cache_dir c))"
    then show "fst (load_from_cache L c other sid fname (snd (clear_cache c name w)))
               = fst (load_from_cache L c other sid fname w)"
      using clear_cache_other_entries [OF names(1,2) _ _ names(3)] by blast
  qed
qed

theorem clear_cache_isolation_witness:
  "fst (clear_variant_cache example_cohort example_cached_world) = Inr ()
   \<and> fst (load_from_cache example_libs example_cohort variant_cache_name ''s1''
            ''snv-union-variants.pkl''
            (snd (clear_variant_cache example_cohort example_cached_world))) = Inr PyNone
   \<and> fst (load_from_cache example_libs example_cohort neoantigen_cache_name ''s1''
            ''snv-union-neoantigens.csv''
            (snd (clear_variant_cache example_cohort example_cached_world)))
       = Inr (DataFrame example_table)
   \<and> fst (clear_neoantigen_cache example_cohort example_cached_world) = Inr ()
   \<and> fst (load_from_cache example_libs example_cohort neoantigen_cache_name ''s1''
            ''snv-union-neoantigens.csv''
            (snd (clear_neoantigen_cache example_cohort example_cached_world))) = Inr PyNone
   \<and> fst (load_from_cache example_libs example_cohort variant_cache_name ''s1''
            ''snv-union-variants.pkl''
            (snd (clear_neoantigen_cache example_cohort example_cached_world)))
       = Inr (VariantCollection {''Q''})
   \<and> fst (clear_variant_cache example_cohort example_world) = Inr ()
   \<and> files (snd (clear_variant_cache example_cohort example_world)) = files example_world"
proof -
  let ?dv = "[''work'', ''cache'', ''cached-variants'']"
  let ?dn = "[''work'', ''cache'', ''cached-neoantigens'']"
  note v = clear_cache_isolation [of "clear_variant_cache example_cohort" example_cohort
      variant_cache_name neoantigen_cache_name example_cached_world, simplified]
  note n = clear_cache_isolation [of "clear_neoantigen_cache example_cohort" example_cohort
      neoantigen_cache_name variant_cache_name example_cached_world, simplified]
  note a = clear_cache_isolation [of "clear_variant_cache example_cohort" example_cohort
      variant_cache_name neoantigen_cache_name example_world, simplified]
  have names: "plain ''s1''" "plain ''snv-union-variants.pkl''"
    "plain ''snv-union-neoantigens.csv''"
    by code_simp+
  have straight: "''..'' \<notin> set (split_slash (cache_dir example_cohort))"
    by code_simp
  have rv: "resolve example_cached_world (path_join (cache_dir example_cohort) variant_cache_name)
            = Some ?dv" "is_dir example_cached_world ?dv"
    by code_simp+
  have rn: "resolve example_cached_world
              (path_join (cache_dir example_cohort) neoantigen_cache_name) = Some ?dn"
    "is_dir example_cached_world ?dn"
    by code_simp+
  have absent: "\<not> fst (path_exists (path_join (cache_dir example_cohort) variant_cache_name)
                        example_world)"
    by code_simp
  have before_n: "fst (load_from_cache example_libs example_cohort neoantigen_cache_name ''s1''
                    ''snv-union-neoantigens.csv'' example_cached_world)
                  = Inr (DataFrame example_table)"
    by code_simp
  have before_v: "fst (load_from_cache example_libs example_cohort variant_cache_name ''s1''
                    ''snv-union-variants.pkl'' example_cached_world)
                  = Inr (VariantCollection {''Q''})"
    by code_simp
  have v1: "fst (clear_variant_cache example_cohort example_cached_world) = Inr ()"
    using v [THEN conjunct1] rv by blast
  have v4: "fst (load_from_cache example_libs example_cohort variant_cache_name ''s1''
            ''snv-union-variants.pkl''
            (snd (clear_variant_cache example_cohort example_cached_world))) = Inr PyNone"
    using v [THEN conjunct2, THEN conjunct2, THEN conjunct2, THEN conjunct1] names v1 by blast
  have v5: "fst (load_from_cache example_libs example_cohort neoantigen_cache_name ''s1''
            ''snv-union-neoantigens.csv''
            (snd (clear_variant_cache example_cohort example_cached_world)))
       = Inr (DataFrame example_table)"
    using v [THEN conjunct2, THEN conjunct2, THEN conjunct2, THEN conjunct2] names straight
      before_n by metis
  have n1: "fst (clear_neoantigen_cache example_cohort example_cached_world) = Inr ()"
    using n [THEN conjunct1] rn by blast
  have n4: "fst (load_from_cache example_libs example_cohort neoantigen_cache_name ''s1''
            ''snv-union-neoantigens.csv''
            (snd (clear_neoantigen_cache example_cohort example_cached_world))) = Inr PyNone"
    using n [THEN conjunct2, THEN conjunct2, THEN conjunct2, THEN conjunct1] names n1 by blast
  have n5: "fst (load_from_cache example_libs example_cohort variant_cache_name ''s1''
            ''snv-union-variants.pkl''
            (snd (clear_neoantigen_cache example_cohort example_cached_world)))
       = Inr (VariantCollection {''Q''})"
    using n [THEN conjunct2, THEN conjunct2, THEN conjunct2, THEN conjunct2] names straight
      before_v by metis
  have a3: "clear_variant_cache example_cohort example_world
            = (Inr (), emit (PathExists (path_join (cache_dir example_cohort) variant_cache_name))
                         example_world)"
    using a [THEN conjunct2, THEN conjunct2, THEN conjunct1] absent by blast
  from v1 v4 v5 n1 n4 n5 a3 show ?thesis by simp
qed


end
